theory Spec2Isabelle
  imports Complex_Main "HOL-Library.Log_Nat" "HOL-Library.Multiset" "HOL-Library.Sublist"
begin

section \<open>The task record model (types.ts)\<close>

text \<open>
  The enumerations of \<^verbatim>\<open>types.ts\<close> are datatypes, the \<^verbatim>\<open>Task\<close>
  interface is a record. A JavaScript \<^verbatim>\<open>Date\<close> holds a time value: a whole
  number of milliseconds since the epoch, or NaN (an "Invalid Date"). It is modelled as
  \<open>int option\<close>, with \<open>None\<close> for the invalid date. The numbers of the program
  (\<^verbatim>\<open>completionPercentage\<close>, the slider's \<^verbatim>\<open>parseInt\<close> result) are
  whole numbers and are modelled as \<open>int\<close>. A text of the program is held as the
  list of the bytes of its UTF-8 form: a character of ASCII is one \<open>char\<close> below
  128, any other character is a run of two to four chars from 128 up.
\<close>

datatype TaskStatus = Pending | InProgress | Completed
datatype TaskCategory = Work | Personal | Urgent | Other
datatype TaskPriority = High | Medium | Low
datatype SortOption = Alphabetical | StartDate | DueDate | Completion | Priority
datatype SortOrder = Asc | Desc

type_synonym Date = "int option"

record TaskFormData =
  title :: string
  description :: string
  startDate :: string
  dueDate :: string
  category :: TaskCategory
  priority :: TaskPriority

record Task =
  taskId :: string
  title :: string
  description :: string
  startDate :: Date
  dueDate :: Date
  completionPercentage :: int
  status :: TaskStatus
  category :: TaskCategory
  priority :: TaskPriority
  isCompleted :: bool
  createdAt :: Date
  updatedAt :: Date

section \<open>The platform's Date (ECMA-262, Date objects)\<close>

text \<open>
  The program builds dates with \<^verbatim>\<open>new Date(string)\<close> and stores them through
  \<^verbatim>\<open>JSON.stringify\<close>, which calls \<^verbatim>\<open>Date.prototype.toJSON\<close> and so
  \<^verbatim>\<open>toISOString\<close>. These functions of the platform follow the day and year
  arithmetic of ECMA-262: \<open>DayFromYear\<close>, \<open>YearFromTime\<close> (the largest year
  that starts at or before the time), \<open>MonthFromTime\<close>, \<open>DateFromTime\<close>,
  \<open>MakeDay\<close>, \<open>MakeTime\<close>, \<open>MakeDate\<close> and \<open>TimeClip\<close>.
\<close>

definition msPerDay :: int where
  "msPerDay = 86400000"

definition maxTime :: int where
  "maxTime = 8640000000000000"

definition validTime :: "int \<Rightarrow> bool" where
  "validTime t \<longleftrightarrow> - maxTime \<le> t \<and> t \<le> maxTime"

definition TimeClip :: "int \<Rightarrow> Date" where
  "TimeClip t = (if validTime t then Some t else None)"

definition Day :: "int \<Rightarrow> int" where
  "Day t = t div msPerDay"

definition TimeWithinDay :: "int \<Rightarrow> int" where
  "TimeWithinDay t = t mod msPerDay"

definition isLeapYear :: "int \<Rightarrow> bool" where
  "isLeapYear y \<longleftrightarrow> y mod 4 = 0 \<and> (y mod 100 \<noteq> 0 \<or> y mod 400 = 0)"

definition DaysInYear :: "int \<Rightarrow> int" where
  "DaysInYear y = (if isLeapYear y then 366 else 365)"

definition DayFromYear :: "int \<Rightarrow> int" where
  "DayFromYear y =
     365 * (y - 1970) + (y - 1969) div 4 - (y - 1901) div 100 + (y - 1601) div 400"

text \<open>Each year starts \<open>DaysInYear\<close> days after the one before.\<close>

lemma div_succ:
  assumes "0 < d"
  shows "((a::int) + 1) div d = a div d + (if (a + 1) mod d = 0 then 1 else 0)"
proof -
  let ?q = "a div d" and ?r = "a mod d"
  have r: "0 \<le> ?r" "?r < d" using assms by simp_all
  show ?thesis
  proof (cases "?r = d - 1")
    case True
    have "a + 1 = d * ?q + ?r + 1" by simp
    also have "\<dots> = d * ?q + d" using True by simp
    also have "\<dots> = d * (?q + 1)" by (simp add: algebra_simps)
    finally have e: "a + 1 = d * (?q + 1)" .
    have "(a + 1) div d = ?q + 1" unfolding e using assms by simp
    moreover have "(a + 1) mod d = 0" unfolding e by simp
    ultimately show ?thesis by simp
  next
    case False
    have e: "a + 1 = (?r + 1) + ?q * d" by simp
    have s: "0 \<le> ?r + 1" "?r + 1 < d" using r False by simp_all
    have d0: "d \<noteq> 0" using assms by simp
    have "(a + 1) div d = ((?r + 1) + ?q * d) div d"
      by (rule arg_cong [where f = "\<lambda>x. x div d"]) (rule e)
    also have "\<dots> = ?q + (?r + 1) div d"
      by (rule div_mult_self1 [OF d0])
    also have "(?r + 1) div d = 0"
      using s by (rule div_pos_pos_trivial)
    finally have "(a + 1) div d = ?q" by simp
    moreover have "(a + 1) mod d = ((?r + 1) + ?q * d) mod d"
      by (rule arg_cong [where f = "\<lambda>x. x mod d"]) (rule e)
    then have "(a + 1) mod d = (?r + 1) mod d"
      by (simp only: mod_mult_self1)
    then have "(a + 1) mod d = ?r + 1"
      using s by (simp only: mod_pos_pos_trivial)
    ultimately show ?thesis using r by simp
  qed
qed

lemma mod_shift: "((y::int) - k * d) mod d = y mod d"
  by algebra

lemma div_succ_shift:
  assumes "0 < d"
  shows "((y::int) + 1 - (k * d + 1)) div d =
         (y - (k * d + 1)) div d + (if y mod d = 0 then 1 else 0)"
proof -
  have e: "y + 1 - (k * d + 1) = (y - (k * d + 1)) + 1" by simp
  have m: "(y - (k * d + 1) + 1) mod d = y mod d"
  proof -
    have "y - (k * d + 1) + 1 = y - k * d" by simp
    then show ?thesis by (simp only: mod_shift)
  qed
  show ?thesis
    unfolding e using div_succ [OF assms, of "y - (k * d + 1)"] by (simp only: m)
qed

lemma DayFromYear_step: "DayFromYear (y + 1) = DayFromYear y + DaysInYear y"
proof -
  define A where "A = (y - 1969) div 4"
  define B where "B = (y - 1901) div 100"
  define C where "C = (y - 1601) div 400"
  have a4: "(y + 1 - 1969) div 4 = A + (if y mod 4 = 0 then 1 else 0)"
    using div_succ_shift [of 4 y 492] by (simp add: A_def)
  have a100: "(y + 1 - 1901) div 100 = B + (if y mod 100 = 0 then 1 else 0)"
    using div_succ_shift [of 100 y 19] by (simp add: B_def)
  have a400: "(y + 1 - 1601) div 400 = C + (if y mod 400 = 0 then 1 else 0)"
    using div_succ_shift [of 400 y 4] by (simp add: C_def)
  have m1: "y mod 400 = 0 \<Longrightarrow> y mod 100 = 0" by auto
  have m2: "y mod 100 = 0 \<Longrightarrow> y mod 4 = 0" by auto
  have l: "DayFromYear (y + 1) = 365 * (y + 1 - 1970) + (A + (if y mod 4 = 0 then 1 else 0))
      - (B + (if y mod 100 = 0 then 1 else 0)) + (C + (if y mod 400 = 0 then 1 else 0))"
    unfolding DayFromYear_def a4 a100 a400 ..
  have r: "DayFromYear y = 365 * (y - 1970) + A - B + C"
    unfolding DayFromYear_def A_def B_def C_def ..
  show ?thesis
    unfolding l r DaysInYear_def isLeapYear_def using m1 m2
    by (cases "y mod 4 = 0"; cases "y mod 100 = 0"; cases "y mod 400 = 0") simp_all
qed

text \<open>
  \<open>yearSearch y d\<close> walks up from the year \<open>y\<close> to the last year that starts at
  or before day \<open>d\<close>; \<open>YearFromDay\<close> starts it at a year that is not after
  the day.
\<close>

function yearSearch :: "int \<Rightarrow> int \<Rightarrow> int" where
  "yearSearch y d = (if DayFromYear (y + 1) \<le> d then yearSearch (y + 1) d else y)"
  by pat_completeness auto
termination
proof (relation "measure (\<lambda>(y, d). nat (d - DayFromYear y))")
  show "wf (measure (\<lambda>(y, d). nat (d - DayFromYear y)))"
    by simp
next
  fix y d :: int
  assume "DayFromYear (y + 1) \<le> d"
  moreover have "365 \<le> DaysInYear y"
    by (simp add: DaysInYear_def)
  ultimately show "((y + 1, d), (y, d)) \<in> measure (\<lambda>(y, d). nat (d - DayFromYear y))"
    by (simp add: DayFromYear_step)
qed

declare yearSearch.simps [simp del]

definition YearFromDay :: "int \<Rightarrow> int" where
  "YearFromDay d = yearSearch (1970 + min (d div 365) (d div 366)) d"

definition YearFromTime :: "int \<Rightarrow> int" where
  "YearFromTime t = YearFromDay (Day t)"

definition DayWithinYear :: "int \<Rightarrow> int" where
  "DayWithinYear t = Day t - DayFromYear (YearFromTime t)"

text \<open>The day of the year on which month \<open>m\<close> (0 to 11) starts.\<close>

definition monthStart :: "bool \<Rightarrow> int \<Rightarrow> int" where
  "monthStart leap m =
     (let l = (if leap then 1 else 0) in
      if m = 0 then 0 else if m = 1 then 31 else if m = 2 then 59 + l
      else if m = 3 then 90 + l else if m = 4 then 120 + l else if m = 5 then 151 + l
      else if m = 6 then 181 + l else if m = 7 then 212 + l else if m = 8 then 243 + l
      else if m = 9 then 273 + l else if m = 10 then 304 + l else if m = 11 then 334 + l
      else 365 + l)"

definition monthOfDay :: "bool \<Rightarrow> int \<Rightarrow> int" where
  "monthOfDay leap dwy =
     (if dwy < monthStart leap 1 then 0 else if dwy < monthStart leap 2 then 1
      else if dwy < monthStart leap 3 then 2 else if dwy < monthStart leap 4 then 3
      else if dwy < monthStart leap 5 then 4 else if dwy < monthStart leap 6 then 5
      else if dwy < monthStart leap 7 then 6 else if dwy < monthStart leap 8 then 7
      else if dwy < monthStart leap 9 then 8 else if dwy < monthStart leap 10 then 9
      else if dwy < monthStart leap 11 then 10 else 11)"

definition MonthFromTime :: "int \<Rightarrow> int" where
  "MonthFromTime t = monthOfDay (isLeapYear (YearFromTime t)) (DayWithinYear t)"

definition DateFromTime :: "int \<Rightarrow> int" where
  "DateFromTime t =
     DayWithinYear t - monthStart (isLeapYear (YearFromTime t)) (MonthFromTime t) + 1"

definition HourFromTime :: "int \<Rightarrow> int" where
  "HourFromTime t = (t div 3600000) mod 24"

definition MinFromTime :: "int \<Rightarrow> int" where
  "MinFromTime t = (t div 60000) mod 60"

definition SecFromTime :: "int \<Rightarrow> int" where
  "SecFromTime t = (t div 1000) mod 60"

definition msFromTime :: "int \<Rightarrow> int" where
  "msFromTime t = t mod 1000"

definition MakeTime :: "int \<Rightarrow> int \<Rightarrow> int \<Rightarrow> int \<Rightarrow> int" where
  "MakeTime h m s ms = h * 3600000 + m * 60000 + s * 1000 + ms"

definition MakeDay :: "int \<Rightarrow> int \<Rightarrow> int \<Rightarrow> int" where
  "MakeDay year month date =
     (let ym = year + month div 12; mn = month mod 12
      in DayFromYear ym + monthStart (isLeapYear ym) mn + date - 1)"

definition MakeDate :: "int \<Rightarrow> int \<Rightarrow> int" where
  "MakeDate day time = day * msPerDay + time"

definition DaysInMonth :: "int \<Rightarrow> int \<Rightarrow> int" where
  "DaysInMonth year month =
     monthStart (isLeapYear year) (month + 1) - monthStart (isLeapYear year) month"

subsection \<open>Decimal fields\<close>

definition digitChar :: "nat \<Rightarrow> char" where
  "digitChar n = char_of (48 + n)"

definition digitVal :: "char \<Rightarrow> nat option" where
  "digitVal c = (let n = (of_char c :: nat) in if 48 \<le> n \<and> n \<le> 57 then Some (n - 48) else None)"

text \<open>\<open>padDigits w n\<close> writes \<open>n\<close> in \<open>w\<close> decimal digits, zero padded.\<close>

fun padDigits :: "nat \<Rightarrow> nat \<Rightarrow> string" where
  "padDigits 0 n = []"
| "padDigits (Suc w) n = padDigits w (n div 10) @ [digitChar (n mod 10)]"

fun readDigitsFrom :: "nat \<Rightarrow> string \<Rightarrow> nat option" where
  "readDigitsFrom acc [] = Some acc"
| "readDigitsFrom acc (c # cs) =
     (case digitVal c of None \<Rightarrow> None | Some v \<Rightarrow> readDigitsFrom (10 * acc + v) cs)"

definition readDigits :: "string \<Rightarrow> nat option" where
  "readDigits s = readDigitsFrom 0 s"

subsection \<open>toISOString and toJSON\<close>

text \<open>
  \<^verbatim>\<open>YYYY-MM-DDTHH:mm:ss.sssZ\<close>, with the year as \<^verbatim>\<open>+YYYYYY\<close> or
  \<^verbatim>\<open>-YYYYYY\<close> when it is outside 0 to 9999.
\<close>

definition yearString :: "int \<Rightarrow> string" where
  "yearString y =
     (if 0 \<le> y \<and> y \<le> 9999 then padDigits 4 (nat y)
      else if y < 0 then CHR ''-'' # padDigits 6 (nat (- y))
      else CHR ''+'' # padDigits 6 (nat y))"

definition dateString :: "int \<Rightarrow> string" where
  "dateString t =
     yearString (YearFromTime t) @ ''-'' @ padDigits 2 (nat (MonthFromTime t + 1))
       @ ''-'' @ padDigits 2 (nat (DateFromTime t))"

definition timeString :: "int \<Rightarrow> string" where
  "timeString t =
     padDigits 2 (nat (HourFromTime t)) @ '':'' @ padDigits 2 (nat (MinFromTime t))
       @ '':'' @ padDigits 2 (nat (SecFromTime t)) @ ''.'' @ padDigits 3 (nat (msFromTime t))"

definition toISOString :: "int \<Rightarrow> string" where
  "toISOString t = dateString t @ ''T'' @ timeString t @ ''Z''"

subsection \<open>Date.parse\<close>

text \<open>
  \<^verbatim>\<open>new Date(string)\<close> first reads the string in the date-time string format.
  The model reads the two forms the program meets: the full form written by
  \<^verbatim>\<open>toISOString\<close> and the date-only form \<^verbatim>\<open>YYYY-MM-DD\<close> of a date input
  (both UTC), each also with an expanded year. The fields must be in range: month 01 to
  12, day 01 to the length of the month, hour 00 to 23, minute and second 00 to 59.
  What the platform does with any other string (other forms of the format, and the
  formats and heuristics of the implementation) is the parameter \<open>other\<close>.
\<close>

definition parseYear :: "string \<Rightarrow> (int \<times> string) option" where
  "parseYear s =
     (case s of
        [] \<Rightarrow> None
      | c # r \<Rightarrow>
          if c = CHR ''+'' \<or> c = CHR ''-'' then
            (case readDigits (take 6 r) of
               None \<Rightarrow> None
             | Some n \<Rightarrow>
                 if length r < 6 \<or> (c = CHR ''-'' \<and> n = 0) then None
                 else Some (if c = CHR ''-'' then - int n else int n, drop 6 r))
          else
            (case readDigits (take 4 s) of
               None \<Rightarrow> None
             | Some n \<Rightarrow> if length s < 4 then None else Some (int n, drop 4 s)))"

definition parseDatePart :: "string \<Rightarrow> (int \<times> string) option" where
  "parseDatePart s =
     (case parseYear s of
        None \<Rightarrow> None
      | Some (y, r) \<Rightarrow>
          (case (readDigits (take 2 (drop 1 r)), readDigits (take 2 (drop 4 r))) of
             (Some mo, Some d) \<Rightarrow>
               if length r \<ge> 6 \<and> r ! 0 = CHR ''-'' \<and> r ! 3 = CHR ''-''
                  \<and> 1 \<le> mo \<and> mo \<le> 12 \<and> 1 \<le> d \<and> int d \<le> DaysInMonth y (int mo - 1)
               then Some (MakeDay y (int mo - 1) (int d), drop 6 r)
               else None
           | _ \<Rightarrow> None))"

definition parseTimePart :: "string \<Rightarrow> int option" where
  "parseTimePart r =
     (case (readDigits (take 2 (drop 1 r)), readDigits (take 2 (drop 4 r)),
            readDigits (take 2 (drop 7 r)), readDigits (take 3 (drop 10 r))) of
        (Some h, Some mi, Some sec, Some ms) \<Rightarrow>
          if length r = 14 \<and> r ! 0 = CHR ''T'' \<and> r ! 3 = CHR '':'' \<and> r ! 6 = CHR '':''
             \<and> r ! 9 = CHR ''.'' \<and> r ! 13 = CHR ''Z'' \<and> h \<le> 23 \<and> mi \<le> 59 \<and> sec \<le> 59
          then Some (MakeTime (int h) (int mi) (int sec) (int ms))
          else None
      | _ \<Rightarrow> None)"

definition parseISO :: "string \<Rightarrow> int option" where
  "parseISO s =
     (case parseDatePart s of
        None \<Rightarrow> None
      | Some (day, r) \<Rightarrow>
          if r = [] then Some (MakeDate day 0)
          else (case parseTimePart r of
                  None \<Rightarrow> None
                | Some time \<Rightarrow> Some (MakeDate day time)))"

definition newDate :: "(string \<Rightarrow> Date) \<Rightarrow> string \<Rightarrow> Date" where
  "newDate other s = (case parseISO s of Some t \<Rightarrow> TimeClip t | None \<Rightarrow> other s)"

section \<open>The collection mutators (App.tsx)\<close>

text \<open>
  Each handler of \<^verbatim>\<open>App.tsx\<close> reads the current \<^verbatim>\<open>tasks\<close> state and passes
  a new array to \<^verbatim>\<open>setTasks\<close>; the model takes the array and returns the new one.
  \<^verbatim>\<open>new Date()\<close> reads the clock: the time read is a parameter (\<open>now\<close>; the
  two reads of \<^verbatim>\<open>handleCreateTask\<close> are \<open>now\<close> and \<open>now'\<close>).
  \<^verbatim>\<open>generateId()\<close> draws on the clock and on \<^verbatim>\<open>Math.random\<close>: its result is
  the parameter \<open>newId\<close>. \<^verbatim>\<open>window.confirm\<close> is the parameter \<open>confirmed\<close>.
\<close>

definition handleCreateTask ::
  "(string \<Rightarrow> Date) \<Rightarrow> string \<Rightarrow> int \<Rightarrow> int \<Rightarrow> Task list \<Rightarrow> TaskFormData \<Rightarrow> Task list" where
  "handleCreateTask other newId now now' tasks formData =
     tasks @
     [\<lparr> taskId = newId,
        title = TaskFormData.title formData,
        description = TaskFormData.description formData,
        startDate = newDate other (TaskFormData.startDate formData),
        dueDate = newDate other (TaskFormData.dueDate formData),
        completionPercentage = 0,
        status = Pending,
        category = TaskFormData.category formData,
        priority = TaskFormData.priority formData,
        isCompleted = False,
        createdAt = Some now,
        updatedAt = Some now' \<rparr>]"

definition handleDeleteTask :: "bool \<Rightarrow> Task list \<Rightarrow> string \<Rightarrow> Task list" where
  "handleDeleteTask confirmed tasks ident =
     (if confirmed then filter (\<lambda>task. taskId task \<noteq> ident) tasks else tasks)"

definition toggleTask :: "int \<Rightarrow> Task \<Rightarrow> Task" where
  "toggleTask now task =
     (let isCompleted' = \<not> isCompleted task in
      task\<lparr> isCompleted := isCompleted',
            completionPercentage := (if isCompleted' then 100 else completionPercentage task),
            status := (if isCompleted' then Completed
                       else if completionPercentage task > 0 then InProgress else Pending),
            updatedAt := Some now \<rparr>)"

definition handleToggleComplete :: "int \<Rightarrow> Task list \<Rightarrow> string \<Rightarrow> Task list" where
  "handleToggleComplete now tasks ident =
     map (\<lambda>task. if taskId task = ident then toggleTask now task else task) tasks"

definition progressStatus :: "int \<Rightarrow> TaskStatus" where
  "progressStatus progress =
     (if progress = 100 then Completed else if progress > 0 then InProgress else Pending)"

definition progressTask :: "int \<Rightarrow> int \<Rightarrow> Task \<Rightarrow> Task" where
  "progressTask now progress task =
     task\<lparr> completionPercentage := progress,
           status := progressStatus progress,
           isCompleted := (progress = 100),
           updatedAt := Some now \<rparr>"

definition handleUpdateProgress :: "int \<Rightarrow> Task list \<Rightarrow> string \<Rightarrow> int \<Rightarrow> Task list" where
  "handleUpdateProgress now tasks ident progress =
     map (\<lambda>task. if taskId task = ident then progressTask now progress task else task) tasks"

text \<open>
  The collections the application can hold: it starts empty and changes through the four
  handlers only, the progress being the value of a slider from 0 to 100.
\<close>

inductive reachable :: "Task list \<Rightarrow> bool" where
  initial: "reachable []"
| create: "reachable tasks \<Longrightarrow> reachable (handleCreateTask other newId now now' tasks formData)"
| delete: "reachable tasks \<Longrightarrow> reachable (handleDeleteTask confirmed tasks ident)"
| toggle: "reachable tasks \<Longrightarrow> reachable (handleToggleComplete now tasks ident)"
| progress: "reachable tasks \<Longrightarrow> 0 \<le> p \<Longrightarrow> p \<le> 100 \<Longrightarrow>
             reachable (handleUpdateProgress now tasks ident p)"

text \<open>The invariant of the data model: 100 percent, the completed flag and the completed
  status go together.\<close>

definition consistent :: "Task \<Rightarrow> bool" where
  "consistent task \<longleftrightarrow>
     (completionPercentage task = 100 \<longleftrightarrow> isCompleted task)
     \<and> (isCompleted task \<longleftrightarrow> status task = Completed)"

text \<open>
  What does hold of every task of a reachable collection: the completed flag and the
  completed status go together, a completed task is at 100 percent, a pending task is at
  0 percent, and the percentage is between 0 and 100.
\<close>

definition weaklyConsistent :: "Task \<Rightarrow> bool" where
  "weaklyConsistent task \<longleftrightarrow>
     (isCompleted task \<longleftrightarrow> status task = Completed)
     \<and> (isCompleted task \<longrightarrow> Task.completionPercentage task = 100)
     \<and> (status task = Pending \<longleftrightarrow> Task.completionPercentage task = 0)
     \<and> 0 \<le> Task.completionPercentage task \<and> Task.completionPercentage task \<le> 100"

section \<open>The statistics aggregator (taskUtils.ts)\<close>

subsection \<open>The platform's numbers\<close>

text \<open>
  \<^verbatim>\<open>completedTasks / totalTasks\<close> and the product with 100 are operations on
  binary64 numbers: each returns the double nearest to the exact result, a tie going to
  the even significand. A positive double is written \<open>(m, e)\<close> for \<open>m * 2 ^ e\<close>, with
  \<open>m\<close> below \<open>2 ^ 53\<close> (or equal to it, which is the next binade's first number).
  The exponent is not bounded in the model: the numbers met here lie between
  \<open>2 ^ - 32\<close> and 100. The two counts are array lengths, below \<open>2 ^ 32\<close>, and so are
  doubles themselves.
\<close>

type_synonym double = "int \<times> int"

definition roundHalfEven :: "int \<Rightarrow> int \<Rightarrow> int" where
  "roundHalfEven n d =
     (let q = n div d; r = n mod d
      in if 2 * r < d then q else if d < 2 * r then q + 1 else if even q then q else q + 1)"

text \<open>\<open>roundToDouble n d\<close> is the double nearest to \<open>n / d\<close>, for \<open>0 \<le> n\<close> and
  \<open>0 < d\<close>: the quotient is scaled by \<open>2 ^ k\<close> into the range from \<open>2 ^ 52\<close> to
  \<open>2 ^ 53\<close> and rounded to a whole significand there.\<close>

definition roundToDouble :: "int \<Rightarrow> int \<Rightarrow> double" where
  "roundToDouble n d =
     (if n = 0 then (0, 0)
      else
        let k0 = 53 + bitlen d - bitlen n;
            k = (if d * 2 ^ nat (- k0) * 2 ^ 53 \<le> n * 2 ^ nat k0 then k0 - 1 else k0)
        in (roundHalfEven (n * 2 ^ nat k) (d * 2 ^ nat (- k)), - k))"

definition doubleDiv :: "int \<Rightarrow> int \<Rightarrow> double" where
  "doubleDiv a b = roundToDouble a b"

definition doubleTimes :: "double \<Rightarrow> int \<Rightarrow> double" where
  "doubleTimes x c = (case x of (m, e) \<Rightarrow> roundToDouble (m * c * 2 ^ nat e) (2 ^ nat (- e)))"

text \<open>\<^verbatim>\<open>Math.round\<close>: the nearest whole number, a tie going up.\<close>

definition Math_round :: "double \<Rightarrow> int" where
  "Math_round x = (case x of (m, e) \<Rightarrow> (2 * m * 2 ^ nat e + 2 ^ nat (- e)) div (2 * 2 ^ nat (- e)))"

subsection \<open>calculateTaskStats\<close>

record TaskStats =
  totalTasks :: nat
  completedTasks :: nat
  inProgressTasks :: nat
  pendingTasks :: nat
  overdueTasks :: nat
  completionPercentage :: int

text \<open>\<^verbatim>\<open>new Date(t.dueDate) < new Date()\<close> compares the two time values; a
  comparison with NaN is false.\<close>

definition dateBefore :: "Date \<Rightarrow> int \<Rightarrow> bool" where
  "dateBefore d now = (case d of None \<Rightarrow> False | Some t \<Rightarrow> t < now)"

definition calculateTaskStats :: "int \<Rightarrow> Task list \<Rightarrow> TaskStats" where
  "calculateTaskStats now tasks =
     (let totalTasks = length tasks;
          completedTasks = length (filter (\<lambda>t. isCompleted t) tasks);
          inProgressTasks = length (filter (\<lambda>t. status t = InProgress) tasks);
          pendingTasks = length (filter (\<lambda>t. status t = Pending) tasks);
          overdueTasks = length (filter (\<lambda>t. \<not> isCompleted t \<and> dateBefore (dueDate t) now) tasks);
          completionPercentage =
            (if totalTasks > 0
             then Math_round (doubleTimes (doubleDiv (int completedTasks) (int totalTasks)) 100)
             else 0)
      in \<lparr> totalTasks = totalTasks,
           completedTasks = completedTasks,
           inProgressTasks = inProgressTasks,
           pendingTasks = pendingTasks,
           overdueTasks = overdueTasks,
           completionPercentage = completionPercentage \<rparr>)"

text \<open>The statistic as the specification words it: the exact quotient times 100, rounded
  to the nearest whole number, a half going up.\<close>

definition exactPercentage :: "nat \<Rightarrow> nat \<Rightarrow> int" where
  "exactPercentage c t =
     (if t > 0 then \<lfloor>(of_nat c / of_nat t * 100 :: rat) + 1 / 2\<rfloor> else 0)"

section \<open>Sorting (taskUtils.ts)\<close>

text \<open>
  The comparator of \<^verbatim>\<open>sortTasks\<close> returns a number, which is NaN when a date
  of the two tasks is invalid: \<open>None\<close> in the model. \<^verbatim>\<open>localeCompare\<close> depends
  on the locale of the platform and is the parameter \<open>localeCompare\<close>.

  \<^verbatim>\<open>String.prototype.toLowerCase\<close> follows the case mappings of Unicode. On a text
  of ASCII characters alone it replaces each of A to Z (the codes 65 to 90) by the
  letter 32 codes up and leaves every other character. On a text with any other
  character the result is the platform's: it depends on the characters around a letter
  (a capital sigma at the end of a word) and may be longer than the text. That part is
  the parameter \<open>unicodeLower\<close>, which is given the whole text.
\<close>

definition isAsciiChar :: "char \<Rightarrow> bool" where
  "isAsciiChar c \<longleftrightarrow> (of_char c :: nat) < 128"

definition lowerChar :: "char \<Rightarrow> char" where
  "lowerChar c =
     (let n = (of_char c :: nat) in if 65 \<le> n \<and> n \<le> 90 then char_of (n + 32) else c)"

definition toLowerCase :: "(string \<Rightarrow> string) \<Rightarrow> string \<Rightarrow> string" where
  "toLowerCase unicodeLower s =
     (if list_all isAsciiChar s then map lowerChar s else unicodeLower s)"

definition priorityOrder :: "TaskPriority \<Rightarrow> int" where
  "priorityOrder p = (case p of High \<Rightarrow> 3 | Medium \<Rightarrow> 2 | Low \<Rightarrow> 1)"

definition getTimeDifference :: "Date \<Rightarrow> Date \<Rightarrow> int option" where
  "getTimeDifference a b =
     (case (a, b) of (Some x, Some y) \<Rightarrow> Some (x - y) | _ \<Rightarrow> None)"

definition comparison ::
  "(string \<Rightarrow> string) \<Rightarrow> (string \<Rightarrow> string \<Rightarrow> int) \<Rightarrow> SortOption \<Rightarrow> Task \<Rightarrow> Task
    \<Rightarrow> int option" where
  "comparison unicodeLower localeCompare sortBy a b =
     (case sortBy of
        Alphabetical \<Rightarrow>
          Some (localeCompare (toLowerCase unicodeLower (title a))
                  (toLowerCase unicodeLower (title b)))
      | StartDate \<Rightarrow> getTimeDifference (startDate a) (startDate b)
      | DueDate \<Rightarrow> getTimeDifference (dueDate a) (dueDate b)
      | Completion \<Rightarrow> Some (Task.completionPercentage a - Task.completionPercentage b)
      | Priority \<Rightarrow> Some (priorityOrder (priority b) - priorityOrder (priority a)))"

definition compareTasks ::
  "(string \<Rightarrow> string) \<Rightarrow> (string \<Rightarrow> string \<Rightarrow> int) \<Rightarrow> SortOption \<Rightarrow> SortOrder \<Rightarrow> Task
    \<Rightarrow> Task \<Rightarrow> int option" where
  "compareTasks unicodeLower localeCompare sortBy order a b =
     (if order = Asc then comparison unicodeLower localeCompare sortBy a b
      else map_option uminus (comparison unicodeLower localeCompare sortBy a b))"

text \<open>
  \<^verbatim>\<open>Array.prototype.sort\<close> is stable and reads a NaN from the comparator as 0.
  It is modelled by the stable insertion sort: an element goes before the first later
  element that it does not follow.
\<close>

definition comparatorValue :: "int option \<Rightarrow> int" where
  "comparatorValue v = (case v of None \<Rightarrow> 0 | Some n \<Rightarrow> n)"

fun insertSorted :: "('a \<Rightarrow> 'a \<Rightarrow> int option) \<Rightarrow> 'a \<Rightarrow> 'a list \<Rightarrow> 'a list" where
  "insertSorted cmp x [] = [x]"
| "insertSorted cmp x (y # ys) =
     (if comparatorValue (cmp x y) \<le> 0 then x # y # ys else y # insertSorted cmp x ys)"

definition arraySort :: "('a \<Rightarrow> 'a \<Rightarrow> int option) \<Rightarrow> 'a list \<Rightarrow> 'a list" where
  "arraySort cmp xs = foldr (insertSorted cmp) xs []"

definition sortTasks ::
  "(string \<Rightarrow> string) \<Rightarrow> (string \<Rightarrow> string \<Rightarrow> int) \<Rightarrow> Task list \<Rightarrow> SortOption \<Rightarrow> SortOrder
    \<Rightarrow> Task list" where
  "sortTasks unicodeLower localeCompare tasks sortBy order =
     arraySort (compareTasks unicodeLower localeCompare sortBy order) tasks"

section \<open>Search and status filter (TaskList.tsx)\<close>

text \<open>
  \<^verbatim>\<open>String.prototype.includes\<close>: the search string occurs at some position. On
  well-formed texts an occurrence of the code units is an occurrence of the UTF-8 bytes
  and conversely, a character never starting inside another one in either form.
\<close>

fun startsWith :: "string \<Rightarrow> string \<Rightarrow> bool" where
  "startsWith s [] = True"
| "startsWith [] (q # qs) = False"
| "startsWith (c # cs) (q # qs) = (c = q \<and> startsWith cs qs)"

fun stringIncludes :: "string \<Rightarrow> string \<Rightarrow> bool" where
  "stringIncludes [] q = startsWith [] q"
| "stringIncludes (c # cs) q = (startsWith (c # cs) q \<or> stringIncludes cs q)"

datatype StatusFilter = AllStatuses | OnlyStatus TaskStatus

definition matchesSearch :: "(string \<Rightarrow> string) \<Rightarrow> string \<Rightarrow> Task \<Rightarrow> bool" where
  "matchesSearch unicodeLower searchQuery task \<longleftrightarrow>
     stringIncludes (toLowerCase unicodeLower (title task)) (toLowerCase unicodeLower searchQuery)
     \<or> stringIncludes (toLowerCase unicodeLower (description task))
          (toLowerCase unicodeLower searchQuery)"

definition matchesFilter :: "StatusFilter \<Rightarrow> Task \<Rightarrow> bool" where
  "matchesFilter filterStatus task \<longleftrightarrow>
     filterStatus = AllStatuses \<or> OnlyStatus (status task) = filterStatus"

definition filteredTasks ::
  "(string \<Rightarrow> string) \<Rightarrow> Task list \<Rightarrow> string \<Rightarrow> StatusFilter \<Rightarrow> Task list" where
  "filteredTasks unicodeLower tasks searchQuery filterStatus =
     filter (\<lambda>task. matchesSearch unicodeLower searchQuery task
        \<and> matchesFilter filterStatus task) tasks"

text \<open>
  The search as the specification words it: some stretch of the text is the query,
  letter case apart. Two characters are the same letter when they are equal or are the
  capital and the small form of one letter of the alphabet; a text that contains the
  query character by character contains it.
\<close>

definition capitalLetters :: string where
  "capitalLetters = ''ABCDEFGHIJKLMNOPQRSTUVWXYZ''"

definition smallLetters :: string where
  "smallLetters = ''abcdefghijklmnopqrstuvwxyz''"

definition sameLetter :: "char \<Rightarrow> char \<Rightarrow> bool" where
  "sameLetter a b \<longleftrightarrow>
     a = b \<or> (a, b) \<in> set (zip capitalLetters smallLetters)
     \<or> (b, a) \<in> set (zip capitalLetters smallLetters)"

definition sameIgnoringCase :: "string \<Rightarrow> string \<Rightarrow> bool" where
  "sameIgnoringCase u v \<longleftrightarrow> list_all2 sameLetter u v"

definition containsIgnoringCase :: "string \<Rightarrow> string \<Rightarrow> bool" where
  "containsIgnoringCase s q \<longleftrightarrow>
     (\<exists>before part after. s = before @ part @ after \<and> sameIgnoringCase part q)"

section \<open>Persistence (App.tsx)\<close>

text \<open>
  \<^verbatim>\<open>JSON.stringify(tasks)\<close> first turns the array into a JSON value, each
  \<^verbatim>\<open>Date\<close> through its \<^verbatim>\<open>toJSON\<close> (the ISO string, or null for an invalid
  date), and then writes the value as text. \<^verbatim>\<open>JSON.parse\<close> reads a text into a
  value or throws a \<^verbatim>\<open>SyntaxError\<close>. The two text functions of the platform are
  the parameters \<open>stringify\<close> and \<open>parse\<close>; the values are modelled, with whole
  numbers.
\<close>

datatype json = JNull | JBool bool | JNum int | JStr string | JArr "json list"
  | JObj "(string \<times> json) list"

datatype exn = SyntaxError | TypeError

definition dateToJSON :: "Date \<Rightarrow> json" where
  "dateToJSON d = (case d of None \<Rightarrow> JNull | Some t \<Rightarrow> JStr (toISOString t))"

definition statusString :: "TaskStatus \<Rightarrow> string" where
  "statusString s =
     (case s of Pending \<Rightarrow> ''pending'' | InProgress \<Rightarrow> ''in_progress''
      | Completed \<Rightarrow> ''completed'')"

definition categoryString :: "TaskCategory \<Rightarrow> string" where
  "categoryString c =
     (case c of Work \<Rightarrow> ''work'' | Personal \<Rightarrow> ''personal'' | Urgent \<Rightarrow> ''urgent''
      | Other \<Rightarrow> ''other'')"

definition priorityString :: "TaskPriority \<Rightarrow> string" where
  "priorityString p = (case p of High \<Rightarrow> ''high'' | Medium \<Rightarrow> ''medium'' | Low \<Rightarrow> ''low'')"

definition taskToJSON :: "Task \<Rightarrow> json" where
  "taskToJSON task =
     JObj [(''id'', JStr (taskId task)),
           (''title'', JStr (title task)),
           (''description'', JStr (description task)),
           (''startDate'', dateToJSON (startDate task)),
           (''dueDate'', dateToJSON (dueDate task)),
           (''completionPercentage'', JNum (Task.completionPercentage task)),
           (''status'', JStr (statusString (status task))),
           (''category'', JStr (categoryString (category task))),
           (''priority'', JStr (priorityString (priority task))),
           (''isCompleted'', JBool (isCompleted task)),
           (''createdAt'', dateToJSON (createdAt task)),
           (''updatedAt'', dateToJSON (updatedAt task))]"

text \<open>The save effect: the new content of the slot \<^verbatim>\<open>tasks\<close>.\<close>

definition saveTasks :: "(json \<Rightarrow> string) \<Rightarrow> Task list \<Rightarrow> string" where
  "saveTasks stringify tasks = stringify (JArr (map taskToJSON tasks))"

text \<open>
  The load effect maps every parsed element to a copy whose four date fields are
  \<^verbatim>\<open>new Date(field)\<close>. \<^verbatim>\<open>new Date(v)\<close> of a missing field (undefined) is the
  invalid date, of null the epoch, of a boolean or number the clipped number, of a
  string the parsed string. An element that is null makes the field access throw a
  \<^verbatim>\<open>TypeError\<close>. An element whose other fields are not those of a
  \<^verbatim>\<open>Task\<close>, or whose date field is an array or object, gives an object that is
  no \<^verbatim>\<open>Task\<close>: the typed model stops there with \<open>NotATask\<close>.
\<close>

datatype revived = Revived Task | Throws exn | NotATask

definition dateFromJSON :: "(string \<Rightarrow> Date) \<Rightarrow> json option \<Rightarrow> Date option" where
  "dateFromJSON other v =
     (case v of
        None \<Rightarrow> Some None
      | Some JNull \<Rightarrow> Some (Some 0)
      | Some (JBool b) \<Rightarrow> Some (Some (if b then 1 else 0))
      | Some (JNum n) \<Rightarrow> Some (TimeClip n)
      | Some (JStr s) \<Rightarrow> Some (newDate other s)
      | Some (JArr xs) \<Rightarrow> None
      | Some (JObj kvs) \<Rightarrow> None)"

definition stringFromJSON :: "json option \<Rightarrow> string option" where
  "stringFromJSON v = (case v of Some (JStr s) \<Rightarrow> Some s | _ \<Rightarrow> None)"

definition statusFromJSON :: "json option \<Rightarrow> TaskStatus option" where
  "statusFromJSON v =
     (case stringFromJSON v of
        None \<Rightarrow> None
      | Some s \<Rightarrow> if s = ''pending'' then Some Pending
                 else if s = ''in_progress'' then Some InProgress
                 else if s = ''completed'' then Some Completed else None)"

definition categoryFromJSON :: "json option \<Rightarrow> TaskCategory option" where
  "categoryFromJSON v =
     (case stringFromJSON v of
        None \<Rightarrow> None
      | Some s \<Rightarrow> if s = ''work'' then Some Work
                 else if s = ''personal'' then Some Personal
                 else if s = ''urgent'' then Some Urgent
                 else if s = ''other'' then Some Other else None)"

definition priorityFromJSON :: "json option \<Rightarrow> TaskPriority option" where
  "priorityFromJSON v =
     (case stringFromJSON v of
        None \<Rightarrow> None
      | Some s \<Rightarrow> if s = ''high'' then Some High
                 else if s = ''medium'' then Some Medium
                 else if s = ''low'' then Some Low else None)"

definition numberFromJSON :: "json option \<Rightarrow> int option" where
  "numberFromJSON v = (case v of Some (JNum n) \<Rightarrow> Some n | _ \<Rightarrow> None)"

definition booleanFromJSON :: "json option \<Rightarrow> bool option" where
  "booleanFromJSON v = (case v of Some (JBool b) \<Rightarrow> Some b | _ \<Rightarrow> None)"

definition reviveObject :: "(string \<Rightarrow> Date) \<Rightarrow> (string \<times> json) list \<Rightarrow> revived" where
  "reviveObject other kvs =
     (let field = map_of kvs in
      case (stringFromJSON (field ''id''), stringFromJSON (field ''title''),
            stringFromJSON (field ''description''),
            dateFromJSON other (field ''startDate''), dateFromJSON other (field ''dueDate''),
            numberFromJSON (field ''completionPercentage''), statusFromJSON (field ''status''),
            categoryFromJSON (field ''category''), priorityFromJSON (field ''priority''),
            booleanFromJSON (field ''isCompleted''),
            dateFromJSON other (field ''createdAt''), dateFromJSON other (field ''updatedAt'')) of
        (Some i, Some t, Some d, Some sd, Some dd, Some n, Some st, Some c, Some p, Some b,
         Some ca, Some ua) \<Rightarrow>
          Revived \<lparr> taskId = i, title = t, description = d, startDate = sd, dueDate = dd,
                    completionPercentage = n, status = st, category = c, priority = p,
                    isCompleted = b, createdAt = ca, updatedAt = ua \<rparr>
      | _ \<Rightarrow> NotATask)"

definition reviveTask :: "(string \<Rightarrow> Date) \<Rightarrow> json \<Rightarrow> revived" where
  "reviveTask other v =
     (case v of
        JNull \<Rightarrow> Throws TypeError
      | JObj kvs \<Rightarrow> reviveObject other kvs
      | _ \<Rightarrow> NotATask)"

text \<open>
  What the load effect leaves in the \<^verbatim>\<open>tasks\<close> state and on the console. The
  state starts as the empty array and stays so unless \<^verbatim>\<open>setTasks\<close> is reached;
  an exception anywhere in the \<^verbatim>\<open>try\<close> block goes to
  \<^verbatim>\<open>console.error\<close>.
\<close>

datatype loaded = Loaded "Task list" | NotTasks

fun collectRevived :: "revived list \<Rightarrow> Task list option" where
  "collectRevived [] = Some []"
| "collectRevived (Revived t # rs) = map_option ((#) t) (collectRevived rs)"
| "collectRevived (r # rs) = None"

definition isThrows :: "revived \<Rightarrow> bool" where
  "isThrows r = (case r of Throws e \<Rightarrow> True | _ \<Rightarrow> False)"

definition reviveAll :: "(string \<Rightarrow> Date) \<Rightarrow> json list \<Rightarrow> loaded \<times> exn list" where
  "reviveAll other xs =
     (let rs = map (reviveTask other) xs in
      case find isThrows rs of
        Some (Throws e) \<Rightarrow> (Loaded [], [e])
      | _ \<Rightarrow> (case collectRevived rs of
                None \<Rightarrow> (NotTasks, [])
              | Some tasks \<Rightarrow> (Loaded tasks, [])))"

definition loadTasks ::
  "(string \<Rightarrow> exn + json) \<Rightarrow> (string \<Rightarrow> Date) \<Rightarrow> string option \<Rightarrow> loaded \<times> exn list" where
  "loadTasks parse other savedTasks =
     (case savedTasks of
        None \<Rightarrow> (Loaded [], [])
      | Some content \<Rightarrow>
          if content = [] then (Loaded [], [])
          else (case parse content of
                  Inl e \<Rightarrow> (Loaded [], [e])
                | Inr (JArr xs) \<Rightarrow> reviveAll other xs
                | Inr v \<Rightarrow> (Loaded [], [TypeError])))"

text \<open>A valid date holds a time value in the range of \<^verbatim>\<open>Date\<close>; the dates of a
  task are its four calendar instants.\<close>

definition validDate :: "Date \<Rightarrow> bool" where
  "validDate d = (case d of None \<Rightarrow> False | Some t \<Rightarrow> validTime t)"

definition validDates :: "Task \<Rightarrow> bool" where
  "validDates task \<longleftrightarrow>
     validDate (startDate task) \<and> validDate (dueDate task)
     \<and> validDate (createdAt task) \<and> validDate (updatedAt task)"

section \<open>The scenario of the specification\<close>

definition buyMilk :: Task where
  "buyMilk = \<lparr> taskId = ''1'', title = ''Buy milk'', description = [],
       startDate = Some 0, dueDate = Some 86400000, completionPercentage = 0,
       status = Pending, category = Personal, priority = Low, isCompleted = False,
       createdAt = Some 0, updatedAt = Some 0 \<rparr>"

definition writeReport :: Task where
  "writeReport = \<lparr> taskId = ''2'', title = ''Write report'', description = [],
       startDate = Some 0, dueDate = Some 86400000, completionPercentage = 40,
       status = InProgress, category = Work, priority = High, isCompleted = False,
       createdAt = Some 0, updatedAt = Some 0 \<rparr>"

definition payRent :: Task where
  "payRent = \<lparr> taskId = ''3'', title = ''Pay rent'', description = [],
       startDate = Some 0, dueDate = Some 86400000, completionPercentage = 100,
       status = Completed, category = Other, priority = Medium, isCompleted = True,
       createdAt = Some 0, updatedAt = Some 0 \<rparr>"

definition buyMilkForm :: TaskFormData where
  "buyMilkForm = \<lparr> TaskFormData.title = ''Buy milk'', TaskFormData.description = [],
       TaskFormData.startDate = ''2024-01-15'', TaskFormData.dueDate = ''2024-01-16'',
       TaskFormData.category = Personal, TaskFormData.priority = Low \<rparr>"

text \<open>A task created from the form, then completed with the checkbox, then un-checked.\<close>

definition createdTasks :: "Task list" where
  "createdTasks = handleCreateTask (\<lambda>s. None) ''a'' 1 1 [] buyMilkForm"

definition checkedTasks :: "Task list" where
  "checkedTasks = handleToggleComplete 2 createdTasks ''a''"

definition uncheckedTasks :: "Task list" where
  "uncheckedTasks = handleToggleComplete 3 checkedTasks ''a''"

text \<open>A task created from a form whose due date was left empty: \<^verbatim>\<open>new Date("")\<close>
  is the invalid date.\<close>

definition undatedTasks :: "Task list" where
  "undatedTasks =
     handleCreateTask (\<lambda>s. None) ''a'' 1 1 [] (buyMilkForm\<lparr> TaskFormData.dueDate := [] \<rparr>)"

definition scenario :: "Task list" where
  "scenario = [buyMilk, writeReport, payRent]"

text \<open>
  A task whose title is the Greek word for street in capitals, the four characters
  U+039F U+0394 U+039F U+03A3, and the query of the one character U+03A3, the capital
  sigma. The lower case of the word ends in the final small sigma: U+03BF U+03B4 U+03BF
  U+03C2. The lower case of the capital sigma alone is the small sigma U+03C3.
\<close>

definition odosCapitals :: string where
  "odosCapitals =
     [CHR 0xCE, CHR 0x9F, CHR 0xCE, CHR 0x94, CHR 0xCE, CHR 0x9F, CHR 0xCE, CHR 0xA3]"

definition odosSmall :: string where
  "odosSmall =
     [CHR 0xCE, CHR 0xBF, CHR 0xCE, CHR 0xB4, CHR 0xCE, CHR 0xBF, CHR 0xCF, CHR 0x82]"

definition sigmaCapital :: string where
  "sigmaCapital = [CHR 0xCE, CHR 0xA3]"

definition sigmaSmall :: string where
  "sigmaSmall = [CHR 0xCF, CHR 0x83]"

definition streetTask :: Task where
  "streetTask = \<lparr> taskId = ''4'', title = odosCapitals, description = [],
       startDate = Some 0, dueDate = Some 86400000, completionPercentage = 0,
       status = Pending, category = Personal, priority = Low, isCompleted = False,
       createdAt = Some 0, updatedAt = Some 0 \<rparr>"

section \<open>Updating progress\<close>

text \<open>
  C2. For a progress in [0,100] and an id of the collection,
  \<^verbatim>\<open>handleUpdateProgress\<close> keeps the length and the order of the collection; at
  every position, a task with the given id gets \<open>completionPercentage = progress\<close>,
  the status \<open>Completed\<close> for 100, \<open>InProgress\<close> strictly between 0 and 100 and
  \<open>Pending\<close> for 0, \<open>isCompleted = (progress = 100)\<close> and \<open>updatedAt = now\<close>,
  its other fields unchanged; a task with another id is unchanged.
\<close>

theorem updateProgress_spec:
  assumes "0 \<le> progress" and "progress \<le> 100" and "ident \<in> taskId ` set tasks"
  shows "length (handleUpdateProgress now tasks ident progress) = length tasks
    \<and> (\<forall>i < length tasks.
         handleUpdateProgress now tasks ident progress ! i =
           (if taskId (tasks ! i) = ident
            then (tasks ! i)\<lparr> Task.completionPercentage := progress,
                   status := (if progress = 100 then Completed
                              else if 0 < progress \<and> progress < 100 then InProgress
                              else Pending),
                   isCompleted := (progress = 100),
                   updatedAt := Some now \<rparr>
            else tasks ! i))"
proof -
  have st: "progressStatus progress =
      (if progress = 100 then Completed
       else if 0 < progress \<and> progress < 100 then InProgress else Pending)"
    using assms(1,2) by (simp add: progressStatus_def)
  show ?thesis
    by (simp add: handleUpdateProgress_def progressTask_def st)
qed

theorem updateProgress_spec_witness:
  "(0::int) \<le> 40 \<and> (40::int) \<le> 100 \<and> ''1'' \<in> taskId ` set scenario
   \<and> handleUpdateProgress 7 scenario ''1'' 40 ! 0 =
       buyMilk\<lparr> Task.completionPercentage := 40, status := InProgress,
                isCompleted := False, updatedAt := Some 7 \<rparr>
   \<and> handleUpdateProgress 7 scenario ''1'' 40 ! 1 = writeReport"
proof -
  have h: "''1'' \<in> taskId ` set scenario"
    by (simp add: scenario_def buyMilk_def)
  have "\<forall>i < length scenario.
         handleUpdateProgress 7 scenario ''1'' 40 ! i =
           (if taskId (scenario ! i) = ''1''
            then (scenario ! i)\<lparr> Task.completionPercentage := 40,
                   status := (if (40::int) = 100 then Completed
                              else if (0::int) < 40 \<and> (40::int) < 100 then InProgress
                              else Pending),
                   isCompleted := ((40::int) = 100),
                   updatedAt := Some 7 \<rparr>
            else scenario ! i)"
    using updateProgress_spec [of 40 "''1''" scenario 7] h by simp
  then have "handleUpdateProgress 7 scenario ''1'' 40 ! 0 =
           (if taskId (scenario ! 0) = ''1''
            then (scenario ! 0)\<lparr> Task.completionPercentage := 40,
                   status := InProgress, isCompleted := False, updatedAt := Some 7 \<rparr>
            else scenario ! 0)"
    and "handleUpdateProgress 7 scenario ''1'' 40 ! 1 =
           (if taskId (scenario ! 1) = ''1''
            then (scenario ! 1)\<lparr> Task.completionPercentage := 40,
                   status := InProgress, isCompleted := False, updatedAt := Some 7 \<rparr>
            else scenario ! 1)"
    by (simp_all add: scenario_def)
  then show ?thesis
    using h by (simp add: scenario_def buyMilk_def writeReport_def)
qed

section \<open>Toggling completion\<close>

text \<open>
  C3. For an id of the collection, \<^verbatim>\<open>handleToggleComplete\<close> keeps the length and
  the order of the collection and flips \<open>isCompleted\<close> of every task with that id.
  When the new value is true, the percentage becomes 100 and the status
  \<open>Completed\<close>, whatever the percentage was (0 included); when it is false, the
  percentage stays and the status is \<open>InProgress\<close> for a percentage above 0 and
  \<open>Pending\<close> otherwise. \<open>updatedAt\<close> becomes \<open>now\<close>; the other fields of the
  task, and the tasks with another id, are unchanged.
\<close>

theorem toggleComplete_spec:
  assumes "ident \<in> taskId ` set tasks"
  shows "length (handleToggleComplete now tasks ident) = length tasks
    \<and> (\<forall>i < length tasks.
         handleToggleComplete now tasks ident ! i =
           (if taskId (tasks ! i) = ident
            then (if isCompleted (tasks ! i)
                  then (tasks ! i)\<lparr> isCompleted := False,
                         status := (if Task.completionPercentage (tasks ! i) > 0
                                    then InProgress else Pending),
                         updatedAt := Some now \<rparr>
                  else (tasks ! i)\<lparr> isCompleted := True,
                         Task.completionPercentage := 100,
                         status := Completed,
                         updatedAt := Some now \<rparr>)
            else tasks ! i))"
  by (simp add: handleToggleComplete_def toggleTask_def Let_def)

theorem toggleComplete_spec_witness:
  "''1'' \<in> taskId ` set scenario
   \<and> handleToggleComplete 7 scenario ''1'' ! 0 =
       buyMilk\<lparr> isCompleted := True, Task.completionPercentage := 100,
                status := Completed, updatedAt := Some 7 \<rparr>
   \<and> handleToggleComplete 7 scenario ''1'' ! 2 = payRent"
proof -
  have h: "''1'' \<in> taskId ` set scenario"
    by (simp add: scenario_def buyMilk_def)
  have "\<forall>i < length scenario.
         handleToggleComplete 7 scenario ''1'' ! i =
           (if taskId (scenario ! i) = ''1''
            then (if isCompleted (scenario ! i)
                  then (scenario ! i)\<lparr> isCompleted := False,
                         status := (if Task.completionPercentage (scenario ! i) > 0
                                    then InProgress else Pending),
                         updatedAt := Some 7 \<rparr>
                  else (scenario ! i)\<lparr> isCompleted := True,
                         Task.completionPercentage := 100,
                         status := Completed,
                         updatedAt := Some 7 \<rparr>)
            else scenario ! i)"
    using toggleComplete_spec [OF h, of 7] by simp
  then have "handleToggleComplete 7 scenario ''1'' ! 0 =
           (if taskId (scenario ! 0) = ''1''
            then (if isCompleted (scenario ! 0)
                  then (scenario ! 0)\<lparr> isCompleted := False,
                         status := (if Task.completionPercentage (scenario ! 0) > 0
                                    then InProgress else Pending),
                         updatedAt := Some 7 \<rparr>
                  else (scenario ! 0)\<lparr> isCompleted := True,
                         Task.completionPercentage := 100,
                         status := Completed,
                         updatedAt := Some 7 \<rparr>)
            else scenario ! 0)"
    and "handleToggleComplete 7 scenario ''1'' ! 2 =
           (if taskId (scenario ! 2) = ''1''
            then (if isCompleted (scenario ! 2)
                  then (scenario ! 2)\<lparr> isCompleted := False,
                         status := (if Task.completionPercentage (scenario ! 2) > 0
                                    then InProgress else Pending),
                         updatedAt := Some 7 \<rparr>
                  else (scenario ! 2)\<lparr> isCompleted := True,
                         Task.completionPercentage := 100,
                         status := Completed,
                         updatedAt := Some 7 \<rparr>)
            else scenario ! 2)"
    by (simp_all add: scenario_def)
  then show ?thesis
    using h by (simp add: scenario_def buyMilk_def payRent_def)
qed

section \<open>An id that is not in the collection\<close>

text \<open>
  C8. For an id that no task of the collection has, \<^verbatim>\<open>handleDeleteTask\<close>
  (confirmed or not), \<^verbatim>\<open>handleToggleComplete\<close> and \<^verbatim>\<open>handleUpdateProgress\<close>
  return the collection as it is; the handlers return a plain collection in every case,
  they have no error result. A confirmed deletion removes the id, so deleting the same
  id again changes nothing more, whatever the collection and the id.
\<close>

theorem missing_id_noop:
  assumes "ident \<notin> taskId ` set tasks"
  shows "handleDeleteTask confirmed tasks ident = tasks
    \<and> handleToggleComplete now tasks ident = tasks
    \<and> handleUpdateProgress now tasks ident progress = tasks
    \<and> handleDeleteTask confirmed' (handleDeleteTask True others ident') ident'
        = handleDeleteTask True others ident'"
proof -
  have n: "\<forall>task \<in> set tasks. taskId task \<noteq> ident"
    using assms by auto
  have d: "handleDeleteTask confirmed tasks ident = tasks"
    using n by (simp add: handleDeleteTask_def)
  have t: "handleToggleComplete now tasks ident = tasks"
    unfolding handleToggleComplete_def using n by (simp add: map_idI)
  have u: "handleUpdateProgress now tasks ident progress = tasks"
    unfolding handleUpdateProgress_def using n by (simp add: map_idI)
  have i: "handleDeleteTask confirmed' (handleDeleteTask True others ident') ident'
        = handleDeleteTask True others ident'"
    by (simp add: handleDeleteTask_def)
  show ?thesis
    using d t u i by simp
qed

theorem missing_id_noop_witness:
  "''9'' \<notin> taskId ` set scenario
   \<and> handleDeleteTask True scenario ''9'' = scenario
   \<and> handleToggleComplete 7 scenario ''9'' = scenario
   \<and> handleUpdateProgress 7 scenario ''9'' 50 = scenario
   \<and> handleDeleteTask True (handleDeleteTask True scenario ''2'') ''2''
        = handleDeleteTask True scenario ''2''"
proof -
  have h: "''9'' \<notin> taskId ` set scenario"
    by (simp add: scenario_def buyMilk_def writeReport_def payRent_def)
  show ?thesis
    using h missing_id_noop [OF h, where confirmed = True and now = 7 and progress = 50
        and confirmed' = True and others = scenario and ident' = "''2''"]
    by simp
qed

section \<open>The consistency invariant\<close>

text \<open>
  C1 as the specification states it fails. Creating a task, completing it with the
  checkbox and clearing the checkbox again gives a reachable collection whose task is at
  100 percent, is not completed and has the status \<open>InProgress\<close>:
  \<^verbatim>\<open>handleToggleComplete\<close> keeps the percentage of a task that it un-completes.
\<close>

theorem toggle_twice_inconsistent:
  "reachable uncheckedTasks
   \<and> uncheckedTasks
      = [\<lparr> taskId = ''a'', title = ''Buy milk'', description = [],
           startDate = Some 1705276800000, dueDate = Some 1705363200000,
           completionPercentage = 100, status = InProgress, category = Personal,
           priority = Low, isCompleted = False, createdAt = Some 1,
           updatedAt = Some 3 \<rparr>]
   \<and> \<not> consistent
        \<lparr> taskId = ''a'', title = ''Buy milk'', description = [],
           startDate = Some 1705276800000, dueDate = Some 1705363200000,
           completionPercentage = 100, status = InProgress, category = Personal,
           priority = Low, isCompleted = False, createdAt = Some 1,
           updatedAt = Some 3 \<rparr>"
proof -
  have r: "reachable uncheckedTasks"
    unfolding uncheckedTasks_def checkedTasks_def createdTasks_def
    by (intro reachable.toggle reachable.create reachable.initial)
  have d1: "newDate (\<lambda>s. None) ''2024-01-15'' = Some 1705276800000"
    by code_simp
  have d2: "newDate (\<lambda>s. None) ''2024-01-16'' = Some 1705363200000"
    by code_simp
  show ?thesis
    using r
    by (simp add: uncheckedTasks_def checkedTasks_def createdTasks_def
        handleToggleComplete_def handleCreateTask_def toggleTask_def
        consistent_def buyMilkForm_def d1 d2)
qed

text \<open>
  What does hold of every task of a reachable collection: the completed flag and the
  completed status go together, a completed task is at 100 percent, a pending task is
  one at 0 percent, and the percentage is between 0 and 100.
\<close>

lemma reachable_weaklyConsistent:
  "reachable tasks \<Longrightarrow> \<forall>task \<in> set tasks. weaklyConsistent task"
proof (induction rule: reachable.induct)
  case initial
  show ?case by simp
next
  case (create tasks other newId now now' formData)
  then show ?case
    by (simp add: handleCreateTask_def weaklyConsistent_def)
next
  case (delete tasks confirmed ident)
  then show ?case
    by (simp add: handleDeleteTask_def)
next
  case (toggle tasks now ident)
  then show ?case
    by (auto simp: handleToggleComplete_def toggleTask_def weaklyConsistent_def)
next
  case (progress tasks p now ident)
  then show ?case
    by (auto simp: handleUpdateProgress_def progressTask_def progressStatus_def
        weaklyConsistent_def)
qed

text \<open>
  C1, amended. In every collection reachable from the empty one by creating, toggling,
  updating the progress (within 0 to 100) and deleting, every task is completed exactly
  when its status is \<open>Completed\<close>, and a completed task is at 100 percent.
\<close>

theorem reachable_completed:
  assumes "reachable tasks" and "task \<in> set tasks"
  shows "(isCompleted task \<longleftrightarrow> status task = Completed)
    \<and> (isCompleted task \<longrightarrow> Task.completionPercentage task = 100)"
  using reachable_weaklyConsistent [OF assms(1)] assms(2)
  by (simp add: weaklyConsistent_def)

theorem reachable_completed_witness:
  "reachable checkedTasks \<and> hd checkedTasks \<in> set checkedTasks
   \<and> isCompleted (hd checkedTasks) \<and> status (hd checkedTasks) = Completed
   \<and> Task.completionPercentage (hd checkedTasks) = 100"
proof -
  have r: "reachable checkedTasks"
    unfolding checkedTasks_def createdTasks_def
    by (intro reachable.toggle reachable.create reachable.initial)
  have m: "hd checkedTasks \<in> set checkedTasks"
    by (simp add: checkedTasks_def createdTasks_def handleToggleComplete_def
        handleCreateTask_def)
  have c: "isCompleted (hd checkedTasks)"
    by (simp add: checkedTasks_def createdTasks_def handleToggleComplete_def
        handleCreateTask_def toggleTask_def)
  show ?thesis
    using r m c reachable_completed [OF r m] by simp
qed

section \<open>Sorting by priority\<close>

lemma mset_insertSorted: "mset (insertSorted cmp x xs) = add_mset x (mset xs)"
  by (induction xs) simp_all

lemma mset_arraySort: "mset (arraySort cmp xs) = mset xs"
  unfolding arraySort_def by (induction xs) (simp_all add: mset_insertSorted)

lemma set_insertSorted: "set (insertSorted cmp x xs) = insert x (set xs)"
  using mset_insertSorted [of cmp x xs, THEN arg_cong, of set_mset] by simp

text \<open>A comparator that orders by a whole-number key sorts by that key.\<close>

lemma sorted_insertSorted:
  fixes key :: "'a \<Rightarrow> int"
  assumes cmp: "\<And>a b. comparatorValue (cmp a b) \<le> 0 \<longleftrightarrow> key a \<le> key b"
  assumes "sorted_wrt (\<lambda>a b. key a \<le> key b) xs"
  shows "sorted_wrt (\<lambda>a b. key a \<le> key b) (insertSorted cmp x xs)"
  using assms(2)
proof (induction xs)
  case Nil
  show ?case by simp
next
  case (Cons y ys)
  show ?case
  proof (cases "key x \<le> key y")
    case True
    then show ?thesis
      using Cons.prems cmp by auto
  next
    case False
    then show ?thesis
      using Cons cmp by (auto simp: set_insertSorted)
  qed
qed

lemma sorted_arraySort:
  fixes key :: "'a \<Rightarrow> int"
  assumes cmp: "\<And>a b. comparatorValue (cmp a b) \<le> 0 \<longleftrightarrow> key a \<le> key b"
  shows "sorted_wrt (\<lambda>a b. key a \<le> key b) (arraySort cmp xs)"
  unfolding arraySort_def
  by (induction xs) (simp_all add: sorted_insertSorted [where key = key, OF cmp])

text \<open>
  C6. The comparator for the priority key is \<open>rank b - rank a\<close> with the ranks high 3,
  medium 2 and low 1, negated for the descending order. Sorting by priority in
  ascending order therefore lists the tasks from high to low (and keeps the tasks, each
  as often as before); the scenario comes out as Write report, Pay rent, Buy milk.
\<close>

theorem sort_by_priority:
  "compareTasks unicodeLower localeCompare Priority order a b =
     Some (if order = Asc then priorityOrder (priority b) - priorityOrder (priority a)
           else - (priorityOrder (priority b) - priorityOrder (priority a)))
   \<and> priorityOrder High = 3 \<and> priorityOrder Medium = 2 \<and> priorityOrder Low = 1
   \<and> sorted_wrt (\<lambda>x y. priorityOrder (priority x) \<ge> priorityOrder (priority y))
        (sortTasks unicodeLower localeCompare tasks Priority Asc)
   \<and> mset (sortTasks unicodeLower localeCompare tasks Priority Asc) = mset tasks
   \<and> map title (sortTasks unicodeLower localeCompare scenario Priority Asc) =
        [''Write report'', ''Pay rent'', ''Buy milk'']"
proof -
  have c: "compareTasks unicodeLower localeCompare Priority order a b =
     Some (if order = Asc then priorityOrder (priority b) - priorityOrder (priority a)
           else - (priorityOrder (priority b) - priorityOrder (priority a)))"
    by (simp add: compareTasks_def comparison_def)
  have r: "priorityOrder High = 3 \<and> priorityOrder Medium = 2 \<and> priorityOrder Low = 1"
    by (simp add: priorityOrder_def)
  have k: "comparatorValue (compareTasks unicodeLower localeCompare Priority Asc x y) \<le> 0
      \<longleftrightarrow> - priorityOrder (priority x) \<le> - priorityOrder (priority y)" for x y
    by (simp add: compareTasks_def comparison_def comparatorValue_def)
  have "sorted_wrt (\<lambda>x y. - priorityOrder (priority x) \<le> - priorityOrder (priority y))
        (sortTasks unicodeLower localeCompare tasks Priority Asc)"
    unfolding sortTasks_def
    by (rule sorted_arraySort [where key = "\<lambda>t. - priorityOrder (priority t)"]) (rule k)
  then have s: "sorted_wrt (\<lambda>x y. priorityOrder (priority x) \<ge> priorityOrder (priority y))
        (sortTasks unicodeLower localeCompare tasks Priority Asc)"
    by simp
  have m: "mset (sortTasks unicodeLower localeCompare tasks Priority Asc) = mset tasks"
    by (simp add: sortTasks_def mset_arraySort)
  have e: "map title (sortTasks unicodeLower localeCompare scenario Priority Asc) =
        [''Write report'', ''Pay rent'', ''Buy milk'']"
    by (simp add: sortTasks_def arraySort_def scenario_def buyMilk_def writeReport_def
        payRent_def compareTasks_def comparison_def comparatorValue_def priorityOrder_def)
  show ?thesis
    using c r s m e by simp
qed

section \<open>Search and status filter\<close>

lemma startsWith_iff: "startsWith s q \<longleftrightarrow> (\<exists>r. s = q @ r)"
  by (induction s q rule: startsWith.induct) auto

lemma stringIncludes_iff: "stringIncludes s q \<longleftrightarrow> (\<exists>b a. s = b @ q @ a)"
proof (induction s)
  case Nil
  show ?case by (cases q) simp_all
next
  case (Cons c cs)
  show ?case
  proof
    assume "stringIncludes (c # cs) q"
    then consider "startsWith (c # cs) q" | "stringIncludes cs q"
      by auto
    then show "\<exists>b a. c # cs = b @ q @ a"
    proof cases
      case 1
      then obtain r where "c # cs = q @ r"
        using startsWith_iff by blast
      then have "c # cs = [] @ q @ r" by simp
      then show ?thesis by blast
    next
      case 2
      then obtain b a where "cs = b @ q @ a"
        using Cons.IH by blast
      then have "c # cs = (c # b) @ q @ a" by simp
      then show ?thesis by blast
    qed
  next
    assume "\<exists>b a. c # cs = b @ q @ a"
    then obtain b a where e: "c # cs = b @ q @ a"
      by blast
    show "stringIncludes (c # cs) q"
    proof (cases b)
      case Nil
      then have "startsWith (c # cs) q"
        using e startsWith_iff by auto
      then show ?thesis by simp
    next
      case (Cons b1 bs)
      then have "cs = bs @ q @ a"
        using e by simp
      then have "stringIncludes cs q"
        using Cons.IH by blast
      then show ?thesis by simp
    qed
  qed
qed

text \<open>Lower-casing a character by its code pairs the letters as the alphabet does.\<close>

lemma of_char_lowerChar:
  "(of_char (lowerChar c) :: nat) =
     (if 65 \<le> (of_char c :: nat) \<and> (of_char c :: nat) \<le> 90 then of_char c + 32 else of_char c)"
  by (simp add: lowerChar_def Let_def)

lemma letters_table:
  "\<forall>n \<in> set [65 ..< 91 :: nat].
     (char_of n, char_of (n + 32)) \<in> set (zip capitalLetters smallLetters)"
  by code_simp

lemma letters_codes:
  "\<forall>p \<in> set (zip capitalLetters smallLetters).
     65 \<le> (of_char (fst p) :: nat) \<and> (of_char (fst p) :: nat) \<le> 90
     \<and> (of_char (snd p) :: nat) = of_char (fst p) + 32"
  by code_simp

lemma zip_letters_iff:
  "(a, b) \<in> set (zip capitalLetters smallLetters) \<longleftrightarrow>
     65 \<le> (of_char a :: nat) \<and> (of_char a :: nat) \<le> 90 \<and> (of_char b :: nat) = of_char a + 32"
proof
  assume "(a, b) \<in> set (zip capitalLetters smallLetters)"
  then show "65 \<le> (of_char a :: nat) \<and> (of_char a :: nat) \<le> 90
      \<and> (of_char b :: nat) = of_char a + 32"
    using letters_codes by fastforce
next
  assume r: "65 \<le> (of_char a :: nat) \<and> (of_char a :: nat) \<le> 90
      \<and> (of_char b :: nat) = of_char a + 32"
  define n :: nat where "n = of_char a"
  have "n \<in> set [65 ..< 91]"
    unfolding set_upt using r by (simp add: n_def)
  then have "(char_of n, char_of (n + 32)) \<in> set (zip capitalLetters smallLetters)"
    using letters_table by blast
  moreover have "char_of n = a"
    by (simp add: n_def)
  moreover have "char_of (n + 32) = b"
  proof -
    have "char_of (of_char b :: nat) = b"
      by simp
    then show ?thesis
      using r by (simp add: n_def)
  qed
  ultimately show "(a, b) \<in> set (zip capitalLetters smallLetters)"
    by simp
qed

lemma lower_code_eq_iff:
  fixes x y :: nat
  shows "(if 65 \<le> x \<and> x \<le> 90 then x + 32 else x) = (if 65 \<le> y \<and> y \<le> 90 then y + 32 else y)
    \<longleftrightarrow> x = y \<or> 65 \<le> x \<and> x \<le> 90 \<and> y = x + 32 \<or> 65 \<le> y \<and> y \<le> 90 \<and> x = y + 32"
  by presburger

lemma lowerChar_eq_iff: "lowerChar a = lowerChar b \<longleftrightarrow> sameLetter a b"
proof -
  define x :: nat where "x = of_char a"
  define y :: nat where "y = of_char b"
  have la: "(of_char (lowerChar a) :: nat) = (if 65 \<le> x \<and> x \<le> 90 then x + 32 else x)"
    and lb: "(of_char (lowerChar b) :: nat) = (if 65 \<le> y \<and> y \<le> 90 then y + 32 else y)"
    unfolding x_def y_def by (rule of_char_lowerChar)+
  have "lowerChar a = lowerChar b \<longleftrightarrow> (of_char (lowerChar a) :: nat) = of_char (lowerChar b)"
    by simp
  then have e1: "lowerChar a = lowerChar b \<longleftrightarrow>
      (if 65 \<le> x \<and> x \<le> 90 then x + 32 else x) = (if 65 \<le> y \<and> y \<le> 90 then y + 32 else y)"
    by (simp only: la lb)
  have "a = b \<longleftrightarrow> x = y"
    by (simp add: x_def y_def)
  then have e2: "sameLetter a b \<longleftrightarrow>
      x = y \<or> 65 \<le> x \<and> x \<le> 90 \<and> y = x + 32 \<or> 65 \<le> y \<and> y \<le> 90 \<and> x = y + 32"
    by (simp only: sameLetter_def zip_letters_iff x_def y_def)
  show ?thesis
    unfolding e1 e2 by (rule lower_code_eq_iff)
qed

lemma sameIgnoringCase_iff: "sameIgnoringCase u v \<longleftrightarrow> map lowerChar u = map lowerChar v"
  unfolding sameIgnoringCase_def
  by (induction u arbitrary: v) (auto simp: list_all2_Cons1 lowerChar_eq_iff)

lemma includes_lower_iff:
  "stringIncludes (map lowerChar s) (map lowerChar q) \<longleftrightarrow> containsIgnoringCase s q"
proof
  assume "stringIncludes (map lowerChar s) (map lowerChar q)"
  then obtain b a where "map lowerChar s = b @ (map lowerChar q @ a)"
    using stringIncludes_iff by blast
  then obtain s1 r where s1: "s = s1 @ r" and r: "map lowerChar q @ a = map lowerChar r"
    unfolding map_eq_append_conv by blast
  from r [symmetric] obtain s2 s3 where "r = s2 @ s3" and "map lowerChar q = map lowerChar s2"
    unfolding map_eq_append_conv by blast
  with s1 have "s = s1 @ s2 @ s3" and "map lowerChar s2 = map lowerChar q"
    by simp_all
  then show "containsIgnoringCase s q"
    unfolding containsIgnoringCase_def sameIgnoringCase_iff by blast
next
  assume "containsIgnoringCase s q"
  then obtain s1 s2 s3 where s: "s = s1 @ s2 @ s3" and l: "map lowerChar s2 = map lowerChar q"
    unfolding containsIgnoringCase_def sameIgnoringCase_iff by blast
  have "map lowerChar s = map lowerChar s1 @ map lowerChar q @ map lowerChar s3"
    using l unfolding s by simp
  then show "stringIncludes (map lowerChar s) (map lowerChar q)"
    using stringIncludes_iff by blast
qed

text \<open>
  \<^verbatim>\<open>filteredTasks\<close> is the search stage followed by the status stage, each a
  filter that keeps the order. On texts of ASCII characters the search keeps exactly the
  tasks whose title or description contains the query, letter case apart. The empty
  query keeps every task. The status stage keeps exactly the tasks whose status is the
  selected one, and every task when the selection is \<open>AllStatuses\<close> (the sentinel
  \<^verbatim>\<open>'all'\<close>). In the scenario the query \<^verbatim>\<open>rep\<close> keeps Write report alone.
\<close>

lemma search_and_filter_ascii:
  "filteredTasks unicodeLower tasks searchQuery filterStatus =
     filter (matchesFilter filterStatus) (filter (matchesSearch unicodeLower searchQuery) tasks)
   \<and> (list_all isAsciiChar searchQuery \<and> list_all isAsciiChar (title task)
        \<and> list_all isAsciiChar (description task) \<longrightarrow>
          (matchesSearch unicodeLower searchQuery task \<longleftrightarrow>
             containsIgnoringCase (title task) searchQuery
             \<or> containsIgnoringCase (description task) searchQuery))
   \<and> filter (matchesSearch unicodeLower []) tasks = tasks
   \<and> (matchesFilter filterStatus task \<longleftrightarrow>
        filterStatus = AllStatuses \<or> filterStatus = OnlyStatus (status task))
   \<and> filter (matchesFilter AllStatuses) tasks = tasks
   \<and> map title (filteredTasks unicodeLower scenario ''rep'' AllStatuses) = [''Write report'']"
proof -
  have a: "filteredTasks unicodeLower tasks searchQuery filterStatus =
     filter (matchesFilter filterStatus) (filter (matchesSearch unicodeLower searchQuery) tasks)"
    by (simp add: filteredTasks_def conj_commute)
  have b: "list_all isAsciiChar searchQuery \<and> list_all isAsciiChar (title task)
        \<and> list_all isAsciiChar (description task) \<longrightarrow>
          (matchesSearch unicodeLower searchQuery task \<longleftrightarrow>
             containsIgnoringCase (title task) searchQuery
             \<or> containsIgnoringCase (description task) searchQuery)"
    by (simp add: matchesSearch_def toLowerCase_def includes_lower_iff)
  have "stringIncludes s []" for s
    by (cases s) simp_all
  then have "matchesSearch unicodeLower [] t" for t
    by (simp add: matchesSearch_def toLowerCase_def)
  then have c: "filter (matchesSearch unicodeLower []) tasks = tasks"
    by simp
  have d: "matchesFilter filterStatus task \<longleftrightarrow>
        filterStatus = AllStatuses \<or> filterStatus = OnlyStatus (status task)"
    by (auto simp: matchesFilter_def)
  have e: "filter (matchesFilter AllStatuses) tasks = tasks"
    by (simp add: matchesFilter_def)
  have l: "toLowerCase unicodeLower ''rep'' = ''rep''"
    "toLowerCase unicodeLower ''Buy milk'' = ''buy milk''"
    "toLowerCase unicodeLower ''Write report'' = ''write report''"
    "toLowerCase unicodeLower ''Pay rent'' = ''pay rent''"
    "toLowerCase unicodeLower [] = []"
    by code_simp+
  have f: "map title (filteredTasks unicodeLower scenario ''rep'' AllStatuses) = [''Write report'']"
    by (simp add: filteredTasks_def matchesSearch_def matchesFilter_def scenario_def
        buyMilk_def writeReport_def payRent_def l)
  show ?thesis
    using a b c d e f by simp
qed

text \<open>
  C7. The search does not keep every task whose title contains the query, letter case
  apart. The title of \<open>streetTask\<close> ends in a capital sigma and the query is the
  capital sigma: the title contains the query as it stands. The program lower-cases
  both. The sigma at the end of the word becomes the final small sigma, the sigma of
  the query becomes the small sigma, the lower-cased title does not contain the
  lower-cased query, and the task is dropped. The platform's lower-casing is given here
  at the two texts that the program passes to it.
\<close>

theorem search_misses_final_sigma:
  "title streetTask = take 6 odosCapitals @ sigmaCapital
   \<and> stringIncludes (title streetTask) sigmaCapital
   \<and> containsIgnoringCase (title streetTask) sigmaCapital
   \<and> filteredTasks (\<lambda>s. if s = odosCapitals then odosSmall else sigmaSmall)
        [streetTask] sigmaCapital AllStatuses = []"
proof -
  have t: "title streetTask = take 6 odosCapitals @ sigmaCapital"
    by (simp add: streetTask_def odosCapitals_def sigmaCapital_def)
  have i: "stringIncludes (title streetTask) sigmaCapital"
    by (simp add: streetTask_def odosCapitals_def sigmaCapital_def)
  have "sameIgnoringCase sigmaCapital sigmaCapital"
    by (simp add: sameIgnoringCase_def sameLetter_def list_all2_same)
  then have c: "containsIgnoringCase (title streetTask) sigmaCapital"
    unfolding containsIgnoringCase_def using t by (metis append_Nil2)
  have l: "toLowerCase (\<lambda>s. if s = odosCapitals then odosSmall else sigmaSmall) odosCapitals
      = odosSmall"
    "toLowerCase (\<lambda>s. if s = odosCapitals then odosSmall else sigmaSmall) sigmaCapital
      = sigmaSmall"
    "toLowerCase (\<lambda>s. if s = odosCapitals then odosSmall else sigmaSmall) [] = []"
    by (simp_all add: toLowerCase_def isAsciiChar_def odosCapitals_def sigmaCapital_def)
  have f: "filteredTasks (\<lambda>s. if s = odosCapitals then odosSmall else sigmaSmall)
        [streetTask] sigmaCapital AllStatuses = []"
    by (simp add: filteredTasks_def matchesSearch_def streetTask_def l)
      (simp add: odosSmall_def sigmaSmall_def)
  show ?thesis
    using t i c f by simp
qed

section \<open>Loading from an absent or malformed slot\<close>

text \<open>
  C9, amended. With no slot, and with a slot that holds the empty string,
  the load effect leaves the empty collection and logs nothing: the guard
  \<^verbatim>\<open>if (savedTasks)\<close> skips the parse. With a non-empty content that
  \<^verbatim>\<open>JSON.parse\<close> rejects, it leaves the empty collection and logs the exception;
  nothing is thrown further, the result is a state and a console in every case.
\<close>

theorem load_absent_or_malformed:
  "loadTasks parse other None = (Loaded [], [])
   \<and> loadTasks parse other (Some []) = (Loaded [], [])
   \<and> (content \<noteq> [] \<and> parse content = Inl e \<longrightarrow>
        loadTasks parse other (Some content) = (Loaded [], [e]))"
  by (simp add: loadTasks_def)

theorem load_absent_or_malformed_witness:
  "''{oops'' \<noteq> [] \<and> (\<lambda>s. Inl SyntaxError :: exn + json) ''{oops'' = Inl SyntaxError
   \<and> loadTasks (\<lambda>s. Inl SyntaxError) (\<lambda>s. None) (Some ''{oops'') = (Loaded [], [SyntaxError])"
  using load_absent_or_malformed
    [of "\<lambda>s. Inl SyntaxError" "\<lambda>s. None" "''{oops''" SyntaxError]
  by simp

text \<open>
  C9 as the specification states it fails for the empty string: it is no JSON text (here the
  parser rejects every text, the empty one among them), and nothing is logged.
\<close>

theorem load_empty_string_silent:
  "(\<lambda>s. Inl SyntaxError :: exn + json) [] = Inl SyntaxError
   \<and> snd (loadTasks (\<lambda>s. Inl SyntaxError) (\<lambda>s. None) (Some [])) = []"
  by (simp add: loadTasks_def)

section \<open>The statistics\<close>

lemma roundHalfEven_le:
  assumes "0 < d" and "n \<le> N * d"
  shows "roundHalfEven n d \<le> N"
proof -
  have q: "n div d \<le> N"
  proof -
    have "n div d \<le> (N * d) div d"
      using assms by (intro zdiv_mono1) simp_all
    then show ?thesis
      using assms(1) by simp
  qed
  show ?thesis
  proof (cases "n div d = N")
    case True
    have "n = d * (n div d) + n mod d"
      by simp
    then have "n = d * N + n mod d"
      using True by simp
    moreover have "0 \<le> n mod d"
      using assms(1) by simp
    ultimately have "n mod d = 0"
      using assms(2) by (simp add: mult.commute)
    then show ?thesis
      using True assms(1) by (simp add: roundHalfEven_def Let_def)
  next
    case False
    then have "n div d + 1 \<le> N"
      using q by simp
    then show ?thesis
      by (simp add: roundHalfEven_def Let_def)
  qed
qed

lemma roundHalfEven_nonneg:
  assumes "0 < d" and "0 \<le> n"
  shows "0 \<le> roundHalfEven n d"
proof -
  have "0 \<le> n div d"
    using assms by (simp add: pos_imp_zdiv_nonneg_iff)
  then show ?thesis
    by (simp add: roundHalfEven_def Let_def)
qed

lemma bitlen_mono: "x \<le> y \<Longrightarrow> bitlen x \<le> bitlen y"
  unfolding bitlen_def by (simp add: floorlog_mono)

text \<open>When the quotient is below \<open>2 ^ 53\<close>, its double has an exponent that is not
  positive, and a bound of the quotient by a whole number bounds the double.\<close>

lemma roundToDouble_le:
  assumes n: "0 < n" and d: "0 < d" and b: "bitlen n \<le> bitlen d + 52" and le: "n \<le> N * d"
  shows "snd (roundToDouble n d) \<le> 0
    \<and> 0 \<le> fst (roundToDouble n d)
    \<and> fst (roundToDouble n d) \<le> N * 2 ^ nat (- snd (roundToDouble n d))"
proof -
  define k0 where "k0 = 53 + bitlen d - bitlen n"
  define k where "k = (if d * 2 ^ nat (- k0) * 2 ^ 53 \<le> n * 2 ^ nat k0 then k0 - 1 else k0)"
  have k0: "1 \<le> k0"
    using b by (simp add: k0_def)
  then have k: "0 \<le> k"
    by (simp add: k_def)
  have r: "roundToDouble n d = (roundHalfEven (n * 2 ^ nat k) (d * 2 ^ nat (- k)), - k)"
    using n by (simp add: roundToDouble_def Let_def k_def k0_def)
  have dk: "d * 2 ^ nat (- k) = d"
    using k by simp
  have "n * 2 ^ nat k \<le> (N * 2 ^ nat k) * d"
    using le by (simp add: mult.commute mult.left_commute)
  then have u: "roundHalfEven (n * 2 ^ nat k) d \<le> N * 2 ^ nat k"
    using d by (intro roundHalfEven_le) simp_all
  have l: "0 \<le> roundHalfEven (n * 2 ^ nat k) d"
    using d n by (intro roundHalfEven_nonneg) simp_all
  show ?thesis
    unfolding r dk using k u l by simp
qed

lemma Math_round_bounds:
  assumes "e \<le> 0" and "0 \<le> m" and "m \<le> 100 * 2 ^ nat (- e)"
  shows "0 \<le> Math_round (m, e) \<and> Math_round (m, e) \<le> 100"
proof -
  define P :: int where "P = 2 ^ nat (- e)"
  have P: "0 < P"
    by (simp add: P_def)
  have e: "nat e = 0"
    using assms(1) by simp
  have M: "Math_round (m, e) = (2 * m + P) div (2 * P)"
    by (simp add: Math_round_def e P_def)
  have "0 \<le> (2 * m + P) div (2 * P)"
    using assms(2) P by (simp add: pos_imp_zdiv_nonneg_iff)
  moreover have "(2 * m + P) div (2 * P) \<le> 100"
  proof -
    have "2 * m + P \<le> 201 * P"
      using assms(3) by (simp add: P_def)
    then have "(2 * m + P) div (2 * P) \<le> (201 * P) div (2 * P)"
      using P by (intro zdiv_mono1) simp_all
    also have "(201 * P) div (2 * P) = 201 div 2"
      using P by simp
    finally show ?thesis
      by simp
  qed
  ultimately show ?thesis
    unfolding M by simp
qed

lemma percentage_bounds:
  assumes "c \<le> t" and "0 < t"
  shows "0 \<le> Math_round (doubleTimes (doubleDiv (int c) (int t)) 100)
    \<and> Math_round (doubleTimes (doubleDiv (int c) (int t)) 100) \<le> 100"
proof (cases "c = 0")
  case True
  then show ?thesis
    by (simp add: doubleDiv_def doubleTimes_def roundToDouble_def Math_round_def)
next
  case False
  obtain m e where q: "doubleDiv (int c) (int t) = (m, e)"
    by (cases "doubleDiv (int c) (int t)")
  have "bitlen (int c) \<le> bitlen (int t)"
    using assms(1) by (intro bitlen_mono) simp
  then have "snd (roundToDouble (int c) (int t)) \<le> 0
    \<and> 0 \<le> fst (roundToDouble (int c) (int t))
    \<and> fst (roundToDouble (int c) (int t)) \<le> 1 * 2 ^ nat (- snd (roundToDouble (int c) (int t)))"
    using False assms by (intro roundToDouble_le) simp_all
  then have e: "e \<le> 0" and m0: "0 \<le> m" and m1: "m \<le> 2 ^ nat (- e)"
    using q by (simp_all add: doubleDiv_def)
  have ne: "nat e = 0"
    using e by simp
  have p: "doubleTimes (m, e) 100 = roundToDouble (m * 100) (2 ^ nat (- e))"
    by (simp add: doubleTimes_def ne)
  show ?thesis
  proof (cases "m = 0")
    case True
    then show ?thesis
      unfolding q p by (simp add: roundToDouble_def Math_round_def)
  next
    case False
    then have mp: "0 < m * 100"
      using m0 by simp
    have "bitlen (m * 100) \<le> bitlen (100 * 2 ^ nat (- e))"
      using m1 by (intro bitlen_mono) simp
    also have "\<dots> = bitlen 100 + int (nat (- e))"
      by (rule bitlen_pow2) simp
    also have "bitlen 100 = 7"
      by code_simp
    finally have b1: "bitlen (m * 100) \<le> 7 + int (nat (- e))" .
    have "bitlen (1 * 2 ^ nat (- e) :: int) = bitlen 1 + int (nat (- e))"
      by (rule bitlen_pow2) simp
    moreover have "bitlen 1 = 1"
      by code_simp
    ultimately have b2: "bitlen (2 ^ nat (- e) :: int) = 1 + int (nat (- e))"
      by simp
    have "snd (roundToDouble (m * 100) (2 ^ nat (- e))) \<le> 0
      \<and> 0 \<le> fst (roundToDouble (m * 100) (2 ^ nat (- e)))
      \<and> fst (roundToDouble (m * 100) (2 ^ nat (- e)))
          \<le> 100 * 2 ^ nat (- snd (roundToDouble (m * 100) (2 ^ nat (- e))))"
      using mp b1 b2 m1 by (intro roundToDouble_le) simp_all
    then have "0 \<le> Math_round (fst (roundToDouble (m * 100) (2 ^ nat (- e))),
                               snd (roundToDouble (m * 100) (2 ^ nat (- e))))
      \<and> Math_round (fst (roundToDouble (m * 100) (2 ^ nat (- e))),
                     snd (roundToDouble (m * 100) (2 ^ nat (- e)))) \<le> 100"
      by (intro Math_round_bounds) simp_all
    then show ?thesis
      unfolding q p by simp
  qed
qed

text \<open>
  C10. For every collection, whatever its tasks hold, and every evaluation time: the
  counts of completed, in-progress, pending and overdue tasks are each at most the
  number of tasks, and the percentage, a whole number, lies between 0 and 100.
\<close>

theorem stats_bounded:
  "completedTasks (calculateTaskStats now tasks) \<le> totalTasks (calculateTaskStats now tasks)
   \<and> inProgressTasks (calculateTaskStats now tasks) \<le> totalTasks (calculateTaskStats now tasks)
   \<and> pendingTasks (calculateTaskStats now tasks) \<le> totalTasks (calculateTaskStats now tasks)
   \<and> overdueTasks (calculateTaskStats now tasks) \<le> totalTasks (calculateTaskStats now tasks)
   \<and> 0 \<le> TaskStats.completionPercentage (calculateTaskStats now tasks)
   \<and> TaskStats.completionPercentage (calculateTaskStats now tasks) \<le> 100"
proof -
  have p: "0 \<le> TaskStats.completionPercentage (calculateTaskStats now tasks)
   \<and> TaskStats.completionPercentage (calculateTaskStats now tasks) \<le> 100"
  proof (cases "tasks = []")
    case True
    then show ?thesis
      by (simp add: calculateTaskStats_def)
  next
    case False
    then have "0 < length tasks"
      by simp
    moreover have "length (filter isCompleted tasks) \<le> length tasks"
      by simp
    ultimately show ?thesis
      using percentage_bounds [of "length (filter isCompleted tasks)" "length tasks"]
      by (simp add: calculateTaskStats_def Let_def)
  qed
  show ?thesis
    using p by (simp add: calculateTaskStats_def Let_def)
qed

text \<open>
  The counts of \<^verbatim>\<open>calculateTaskStats\<close> are plain counts, and the percentage is 0
  for the empty collection.
\<close>

lemma stats_counts:
  "totalTasks (calculateTaskStats now tasks) = length tasks
   \<and> completedTasks (calculateTaskStats now tasks) = length (filter isCompleted tasks)
   \<and> inProgressTasks (calculateTaskStats now tasks)
       = length (filter (\<lambda>t. status t = InProgress) tasks)
   \<and> pendingTasks (calculateTaskStats now tasks)
       = length (filter (\<lambda>t. status t = Pending) tasks)
   \<and> overdueTasks (calculateTaskStats now tasks)
       = length (filter (\<lambda>t. \<not> isCompleted t \<and> (\<exists>due. dueDate t = Some due \<and> due < now)) tasks)
   \<and> TaskStats.completionPercentage (calculateTaskStats now []) = 0"
proof -
  have "dateBefore d now \<longleftrightarrow> (\<exists>due. d = Some due \<and> due < now)" for d
    by (cases d) (simp_all add: dateBefore_def)
  then show ?thesis
    by (simp add: calculateTaskStats_def Let_def)
qed

subsection \<open>The percentage away from ties\<close>

lemma roundHalfEven_ge:
  assumes "0 < d" and "N * d \<le> n"
  shows "N \<le> roundHalfEven n d"
proof -
  have "(N * d) div d \<le> n div d"
    using assms by (intro zdiv_mono1) simp_all
  then have "N \<le> n div d"
    using assms(1) by simp
  then show ?thesis
    by (simp add: roundHalfEven_def Let_def)
qed

lemma roundHalfEven_error:
  assumes "0 < d"
  shows "\<bar>real_of_int (roundHalfEven n d) - real_of_int n / real_of_int d\<bar> \<le> 1 / 2"
proof -
  define q where "q = n div d"
  define r where "r = n mod d"
  have r: "0 \<le> r" "r < d"
    using assms by (simp_all add: r_def)
  have e: "real_of_int n / real_of_int d = real_of_int q + real_of_int r / real_of_int d"
    unfolding q_def r_def by (rule of_int_div_aux)
  have d: "0 < real_of_int d"
    using assms by simp
  consider "2 * r < d" | "d < 2 * r" | "2 * r = d"
    by linarith
  then show ?thesis
  proof cases
    case 1
    then have "roundHalfEven n d = q"
      by (simp add: roundHalfEven_def Let_def q_def r_def)
    moreover have "real_of_int r / real_of_int d \<le> 1 / 2"
      using 1 d by (simp add: field_simps)
    moreover have "0 \<le> real_of_int r / real_of_int d"
      using r d by simp
    ultimately show ?thesis
      unfolding e by simp
  next
    case 2
    then have "roundHalfEven n d = q + 1"
      by (simp add: roundHalfEven_def Let_def q_def r_def)
    moreover have "1 / 2 \<le> real_of_int r / real_of_int d"
      using 2 d by (simp add: field_simps)
    moreover have "real_of_int r / real_of_int d \<le> 1"
      using r d by (simp add: field_simps)
    ultimately show ?thesis
      unfolding e by simp
  next
    case 3
    then have "roundHalfEven n d = q \<or> roundHalfEven n d = q + 1"
      by (simp add: roundHalfEven_def Let_def q_def r_def)
    moreover have "real_of_int r / real_of_int d = 1 / 2"
      using 3 d by (simp add: field_simps)
    ultimately show ?thesis
      unfolding e by auto
  qed
qed

text \<open>
  The double of a quotient below \<open>2 ^ 53\<close>: a significand of 53 bits (or \<open>2 ^ 53\<close>
  itself), scaled by a power of two, within half a unit in the last place of the
  quotient.
\<close>

lemma roundToDouble_nearest:
  assumes n: "0 < n" and d: "0 < d" and b: "bitlen n \<le> bitlen d + 52"
  shows "\<exists>m k. roundToDouble n d = (m, - int k)
    \<and> 52 + bitlen d - bitlen n \<le> int k
    \<and> 2 ^ 52 \<le> m \<and> m \<le> 2 ^ 53
    \<and> \<bar>real_of_int m / 2 ^ k - real_of_int n / real_of_int d\<bar> \<le> 1 / (2 * 2 ^ k)"
proof -
  define bn where "bn = nat (bitlen n)"
  define bd where "bd = nat (bitlen d)"
  have bn1: "1 \<le> bn" and bd1: "1 \<le> bd"
    using n d bitlen_eq_zero_iff [of n] bitlen_eq_zero_iff [of d] bitlen_nonneg [of n]
      bitlen_nonneg [of d]
    unfolding bn_def bd_def by linarith+
  have ibn: "bitlen n = int bn" and ibd: "bitlen d = int bd"
    using bitlen_nonneg [of n] bitlen_nonneg [of d] by (simp_all add: bn_def bd_def)
  have "nat (bitlen n - 1) = bn - 1" and "nat (bitlen d - 1) = bd - 1"
    unfolding ibn ibd by linarith+
  then have nb: "2 ^ (bn - 1) \<le> n" "n < 2 ^ bn" and db: "2 ^ (bd - 1) \<le> d" "d < 2 ^ bd"
    using bitlen_bounds [OF n] bitlen_bounds [OF d] by (simp_all add: bn_def bd_def)
  have le: "bn \<le> bd + 52"
    using b by (simp add: ibn ibd)
  define j0 where "j0 = 53 + bd - bn"
  have j0: "1 \<le> j0" "bn + j0 = 53 + bd"
    using le by (simp_all add: j0_def)
  define k0 where "k0 = 53 + bitlen d - bitlen n"
  have k0: "k0 = int j0"
    using le by (simp add: k0_def j0_def ibn ibd)
  define k where "k = (if d * 2 ^ 53 \<le> n * 2 ^ j0 then j0 - 1 else j0)"
  have r: "roundToDouble n d = (roundHalfEven (n * 2 ^ k) d, - int k)"
  proof -
    have "nat (- k0) = 0" and "nat k0 = j0" and "nat (k0 - 1) = j0 - 1"
      and "nat (- (k0 - 1)) = 0" and "k0 - 1 = int (j0 - 1)"
      using j0(1) by (simp_all add: k0)
    then show ?thesis
      using n unfolding roundToDouble_def Let_def k0_def [symmetric] k_def
      by (simp add: k0)
  qed
  have kge: "52 + bitlen d - bitlen n \<le> int k"
    using j0(1) le by (simp add: k_def j0_def ibn ibd)
  have lo: "2 ^ 52 * d \<le> n * 2 ^ k"
  proof (cases "d * 2 ^ 53 \<le> n * 2 ^ j0")
    case True
    have "(2::int) ^ j0 = 2 * 2 ^ (j0 - 1)"
      using j0(1) by (cases j0) simp_all
    then have "d * 2 ^ 53 \<le> 2 * (n * 2 ^ (j0 - 1))"
      using True by simp
    then show ?thesis
      using True by (simp add: k_def)
  next
    case False
    have "2 ^ 52 * d \<le> 2 ^ 52 * 2 ^ bd"
      using db(2) by simp
    also have "\<dots> = (2::int) ^ (bn - 1) * 2 ^ j0"
    proof -
      have "52 + bd = (bn - 1) + j0"
        using j0(2) bn1 by simp
      then have "(2::int) ^ (52 + bd) = 2 ^ ((bn - 1) + j0)"
        by (simp only:)
      then show ?thesis
        by (simp only: power_add)
    qed
    also have "\<dots> \<le> n * 2 ^ j0"
      using nb(1) by simp
    finally show ?thesis
      using False by (simp add: k_def)
  qed
  have hi: "n * 2 ^ k \<le> 2 ^ 53 * d"
  proof (cases "d * 2 ^ 53 \<le> n * 2 ^ j0")
    case True
    have "n * 2 ^ (j0 - 1) \<le> 2 ^ bn * 2 ^ (j0 - 1)"
      using nb(2) by simp
    also have "\<dots> = (2::int) ^ 53 * 2 ^ (bd - 1)"
    proof -
      have "bn + (j0 - 1) = 53 + (bd - 1)"
        using j0 bd1 by simp
      then have "(2::int) ^ (bn + (j0 - 1)) = 2 ^ (53 + (bd - 1))"
        by (simp only:)
      then show ?thesis
        by (simp only: power_add)
    qed
    also have "\<dots> \<le> 2 ^ 53 * d"
      using db(1) by simp
    finally show ?thesis
      using True by (simp add: k_def)
  next
    case False
    then show ?thesis
      by (simp add: k_def mult.commute)
  qed
  have m_lo: "2 ^ 52 \<le> roundHalfEven (n * 2 ^ k) d"
    using d lo by (intro roundHalfEven_ge) simp_all
  have m_hi: "roundHalfEven (n * 2 ^ k) d \<le> 2 ^ 53"
    using d hi by (intro roundHalfEven_le) simp_all
  define A where "A = real_of_int (roundHalfEven (n * 2 ^ k) d)"
  define B where "B = real_of_int n / real_of_int d"
  define P :: real where "P = 2 ^ k"
  have P: "0 < P"
    by (simp add: P_def)
  have "\<bar>real_of_int (roundHalfEven (n * 2 ^ k) d) - real_of_int (n * 2 ^ k) / real_of_int d\<bar>
      \<le> 1 / 2"
    using d by (rule roundHalfEven_error)
  then have "\<bar>A - B * P\<bar> \<le> 1 / 2"
    by (simp add: A_def B_def P_def)
  then have "\<bar>A - B * P\<bar> / P \<le> (1 / 2) / P"
    using P by (intro divide_right_mono) simp_all
  moreover have "A / P - B = (A - B * P) / P"
    using P by (simp add: field_simps)
  then have "\<bar>A / P - B\<bar> = \<bar>A - B * P\<bar> / P"
    using P by simp
  ultimately have "\<bar>A / P - B\<bar> \<le> 1 / (2 * P)"
    by simp
  then have err: "\<bar>real_of_int (roundHalfEven (n * 2 ^ k) d) / 2 ^ k
      - real_of_int n / real_of_int d\<bar> \<le> 1 / (2 * 2 ^ k)"
    by (simp add: A_def B_def P_def)
  show ?thesis
    using r kge m_lo m_hi err by blast
qed

lemma bitlen_power2: "bitlen (2 ^ k :: int) = 1 + int k"
proof -
  have "bitlen (1 * 2 ^ k :: int) = bitlen 1 + int k"
    by (rule bitlen_pow2) simp
  moreover have "bitlen 1 = 1"
    by code_simp
  ultimately show ?thesis
    by simp
qed

lemma inverse_power2_le:
  assumes "j \<le> k"
  shows "1 / (2 * 2 ^ k) \<le> (1 / (2 * 2 ^ j) :: real)"
proof -
  have "(2::real) ^ j \<le> 2 ^ k"
    using assms by (intro power_increasing) simp_all
  then show ?thesis
    by (simp add: field_simps)
qed

text \<open>
  The double that \<^verbatim>\<open>(c / t) * 100\<close> evaluates to is within \<open>2 ^ - 39\<close> of the
  exact value: the quotient is rounded to 53 bits and so is the product.
\<close>

lemma percentage_double_near:
  fixes c t :: int
  assumes c: "0 < c" "c \<le> t"
  shows "\<exists>y. Math_round (doubleTimes (doubleDiv c t) 100) = \<lfloor>y + 1 / 2\<rfloor>
    \<and> y - 100 * (real_of_int c / real_of_int t) \<le> 1 / 549755813888
    \<and> 100 * (real_of_int c / real_of_int t) - y \<le> 1 / 549755813888"
proof -
  have t0: "0 < t"
    using c by simp
  have bc: "bitlen c \<le> bitlen t"
    using c(2) by (rule bitlen_mono)
  obtain m1 k1 where q1: "roundToDouble c t = (m1, - int k1)"
    and k1: "52 + bitlen t - bitlen c \<le> int k1"
    and m1: "2 ^ 52 \<le> m1" "m1 \<le> 2 ^ 53"
    and e1: "\<bar>real_of_int m1 / 2 ^ k1 - real_of_int c / real_of_int t\<bar> \<le> 1 / (2 * 2 ^ k1)"
    using roundToDouble_nearest [of c t] c(1) t0 bc by auto
  have k1': "52 \<le> k1"
    using k1 bc by simp
  have p: "doubleTimes (doubleDiv c t) 100 = roundToDouble (m1 * 100) (2 ^ k1)"
    by (simp add: doubleTimes_def doubleDiv_def q1)
  have "bitlen (m1 * 100) \<le> bitlen (100 * 2 ^ 53)"
    using m1(2) by (intro bitlen_mono) simp
  also have "bitlen (100 * 2 ^ 53 :: int) = bitlen 100 + int 53"
    by (rule bitlen_pow2) simp
  also have "bitlen 100 = 7"
    by code_simp
  finally have b100: "bitlen (m1 * 100) \<le> 60"
    by simp
  obtain m2 k2 where q2: "roundToDouble (m1 * 100) (2 ^ k1) = (m2, - int k2)"
    and k2: "52 + bitlen (2 ^ k1 :: int) - bitlen (m1 * 100) \<le> int k2"
    and e2: "\<bar>real_of_int m2 / 2 ^ k2 - real_of_int (m1 * 100) / real_of_int (2 ^ k1)\<bar>
        \<le> 1 / (2 * 2 ^ k2)"
    using roundToDouble_nearest [of "m1 * 100" "2 ^ k1"] m1(1) b100 k1'
    by (auto simp: bitlen_power2)
  have k2': "45 \<le> k2"
    using k2 b100 k1' by (simp add: bitlen_power2)
  define y where "y = real_of_int m2 / 2 ^ k2"
  define f where "f = real_of_int m1 / 2 ^ k1"
  define x where "x = real_of_int c / real_of_int t"
  have M: "Math_round (doubleTimes (doubleDiv c t) 100) = \<lfloor>y + 1 / 2\<rfloor>"
  proof -
    have "Math_round (m2, - int k2) = (2 * m2 + 2 ^ k2) div (2 * 2 ^ k2)"
      by (simp add: Math_round_def)
    also have "\<dots> = \<lfloor>real_of_int (2 * m2 + 2 ^ k2) / real_of_int (2 * 2 ^ k2)\<rfloor>"
      by (rule floor_divide_of_int_eq [symmetric])
    also have "real_of_int (2 * m2 + 2 ^ k2) / real_of_int (2 * 2 ^ k2) = y + 1 / 2"
      by (simp add: y_def field_simps)
    finally show ?thesis
      by (simp add: p q2)
  qed
  have d1: "\<bar>f - x\<bar> \<le> 1 / (2 * 2 ^ 52)"
    using e1 inverse_power2_le [OF k1'] unfolding f_def x_def by linarith
  have "real_of_int (m1 * 100) / real_of_int (2 ^ k1) = 100 * f"
    by (simp add: f_def)
  then have d2: "\<bar>y - 100 * f\<bar> \<le> 1 / (2 * 2 ^ 45)"
    using e2 inverse_power2_le [OF k2'] unfolding y_def by linarith
  have "f - x \<le> 1 / 9007199254740992" and "x - f \<le> 1 / 9007199254740992"
    and "y - 100 * f \<le> 1 / 70368744177664" and "100 * f - y \<le> 1 / 70368744177664"
    using d1 d2 unfolding abs_le_iff by simp_all
  then have "y - 100 * x \<le> 1 / 549755813888" and "100 * x - y \<le> 1 / 549755813888"
    by linarith+
  then show ?thesis
    using M unfolding x_def by blast
qed

text \<open>
  The exact value plus a half is the whole number \<open>N\<close> of the exact rounding plus a
  fraction \<open>r / (2 * t)\<close>. Below \<open>2 ^ 32\<close> tasks a fraction that is not 0 is further
  from 0 and from 1 than the double is from the exact value.
\<close>

lemma exact_percentage_split:
  fixes c t :: int
  assumes "0 < t"
  shows "100 * (real_of_int c / real_of_int t) + 1 / 2 =
    real_of_int ((200 * c + t) div (2 * t))
      + real_of_int ((200 * c + t) mod (2 * t)) / (2 * real_of_int t)"
proof -
  have "real_of_int (200 * c + t) / real_of_int (2 * t)
      = real_of_int ((200 * c + t) div (2 * t))
        + real_of_int ((200 * c + t) mod (2 * t)) / real_of_int (2 * t)"
    by (rule of_int_div_aux)
  moreover have "real_of_int (200 * c + t) / real_of_int (2 * t)
      = 100 * (real_of_int c / real_of_int t) + 1 / 2"
    using assms by (simp add: field_simps)
  ultimately show ?thesis
    by simp
qed

text \<open>
  The code never returns more than the exact percentage rounded half-up, and never less
  than one below it.
\<close>

lemma percentage_within_one:
  fixes c t :: int
  assumes c: "0 < c" "c \<le> t" and t: "t < 2 ^ 32"
  shows "(200 * c + t) div (2 * t) - 1 \<le> Math_round (doubleTimes (doubleDiv c t) 100)
    \<and> Math_round (doubleTimes (doubleDiv c t) 100) \<le> (200 * c + t) div (2 * t)"
proof -
  have t0: "0 < t"
    using c by simp
  define x where "x = real_of_int c / real_of_int t"
  obtain y where M: "Math_round (doubleTimes (doubleDiv c t) 100) = \<lfloor>y + 1 / 2\<rfloor>"
    and near: "y - 100 * x \<le> 1 / 549755813888" "100 * x - y \<le> 1 / 549755813888"
    using percentage_double_near [OF c] unfolding x_def by blast
  define N where "N = (200 * c + t) div (2 * t)"
  define r where "r = (200 * c + t) mod (2 * t)"
  have r: "0 \<le> r" "r \<le> 2 * t - 1"
  proof -
    have "0 \<le> r" and "r < 2 * t"
      using t0 by (simp_all add: r_def)
    then show "0 \<le> r" and "r \<le> 2 * t - 1"
      by simp_all
  qed
  have rt: "0 < real_of_int t" and rt': "real_of_int t \<le> 2 ^ 32"
    using t0 t by simp_all
  have ex: "100 * x + 1 / 2 = real_of_int N + real_of_int r / (2 * real_of_int t)"
    unfolding x_def N_def r_def using t0 by (rule exact_percentage_split)
  have g: "1 / 2 ^ 33 \<le> 1 / (2 * real_of_int t)"
    using rt rt' by (simp add: field_simps)
  have lo: "0 \<le> real_of_int r / (2 * real_of_int t)"
    using r(1) rt by simp
  have hi: "real_of_int r / (2 * real_of_int t) \<le> 1 - 1 / (2 * real_of_int t)"
  proof -
    have "real_of_int r / (2 * real_of_int t) \<le> real_of_int (2 * t - 1) / (2 * real_of_int t)"
      using r(2) rt by (intro divide_right_mono) simp_all
    also have "\<dots> = 1 - 1 / (2 * real_of_int t)"
      using rt by (simp add: field_simps)
    finally show ?thesis .
  qed
  have "1 / 8589934592 \<le> 1 / (2 * real_of_int t)"
    using g by simp
  then have "real_of_int (N - 1) \<le> y + 1 / 2" and "y + 1 / 2 < real_of_int (N + 1)"
    using near ex lo hi by simp_all
  then have "N - 1 \<le> \<lfloor>y + 1 / 2\<rfloor>" and "\<lfloor>y + 1 / 2\<rfloor> < N + 1"
    by (simp_all only: le_floor_iff floor_less_iff)
  then show ?thesis
    unfolding M N_def by simp
qed

text \<open>
  When the exact percentage is not half-way between two whole numbers, the two
  roundings of the double arithmetic do not reach the half: the code returns the exact
  percentage rounded to the nearest whole number.
\<close>

lemma percentage_off_tie:
  fixes c t :: int
  assumes c: "0 < c" "c \<le> t" and t: "t < 2 ^ 32" and nt: "(200 * c + t) mod (2 * t) \<noteq> 0"
  shows "Math_round (doubleTimes (doubleDiv c t) 100) = (200 * c + t) div (2 * t)"
proof -
  have t0: "0 < t"
    using c by simp
  define x where "x = real_of_int c / real_of_int t"
  obtain y where M: "Math_round (doubleTimes (doubleDiv c t) 100) = \<lfloor>y + 1 / 2\<rfloor>"
    and near: "y - 100 * x \<le> 1 / 549755813888" "100 * x - y \<le> 1 / 549755813888"
    using percentage_double_near [OF c] unfolding x_def by blast
  define N where "N = (200 * c + t) div (2 * t)"
  define r where "r = (200 * c + t) mod (2 * t)"
  have r: "1 \<le> r" "r \<le> 2 * t - 1"
  proof -
    have "0 \<le> r" and "r < 2 * t"
      using t0 by (simp_all add: r_def)
    moreover have "r \<noteq> 0"
      using nt by (simp add: r_def)
    ultimately show "1 \<le> r" and "r \<le> 2 * t - 1"
      by simp_all
  qed
  have rt: "0 < real_of_int t" and rt': "real_of_int t \<le> 2 ^ 32"
    using t0 t by simp_all
  have ex: "100 * x + 1 / 2 = real_of_int N + real_of_int r / (2 * real_of_int t)"
    unfolding x_def N_def r_def using t0 by (rule exact_percentage_split)
  have g: "1 / 2 ^ 33 \<le> 1 / (2 * real_of_int t)"
    using rt rt' by (simp add: field_simps)
  have lo: "1 / (2 * real_of_int t) \<le> real_of_int r / (2 * real_of_int t)"
    using r(1) rt by (intro divide_right_mono) simp_all
  have hi: "real_of_int r / (2 * real_of_int t) \<le> 1 - 1 / (2 * real_of_int t)"
  proof -
    have "real_of_int r / (2 * real_of_int t) \<le> real_of_int (2 * t - 1) / (2 * real_of_int t)"
      using r(2) rt by (intro divide_right_mono) simp_all
    also have "\<dots> = 1 - 1 / (2 * real_of_int t)"
      using rt by (simp add: field_simps)
    finally show ?thesis .
  qed
  have "1 / 8589934592 \<le> 1 / (2 * real_of_int t)"
    using g by simp
  then have "real_of_int N \<le> y + 1 / 2" and "y + 1 / 2 < real_of_int N + 1"
    using near ex lo hi by linarith+
  then have "\<lfloor>y + 1 / 2\<rfloor> = N"
    by (rule floor_unique)
  then show ?thesis
    by (simp add: M N_def)
qed

lemma exactPercentage_div:
  "exactPercentage c t = (if t > 0 then (200 * int c + int t) div (2 * int t) else 0)"
proof (cases "t > 0")
  case True
  have "(of_nat c / of_nat t * 100 :: rat) + 1 / 2
      = of_int (200 * int c + int t) / of_int (2 * int t)"
    using True by (simp add: field_simps)
  then have "\<lfloor>(of_nat c / of_nat t * 100 :: rat) + 1 / 2\<rfloor>
      = \<lfloor>(of_int (200 * int c + int t) / of_int (2 * int t) :: rat)\<rfloor>"
    by (simp only:)
  also have "\<dots> = (200 * int c + int t) div (2 * int t)"
    by (rule floor_divide_of_int_eq)
  finally show ?thesis
    using True by (simp add: exactPercentage_def)
next
  case False
  then show ?thesis
    by (simp add: exactPercentage_def)
qed

text \<open>
  For a collection of fewer than \<open>2 ^ 32\<close> tasks (an array has no more) whose exact
  percentage is not half-way between two whole numbers, \<^verbatim>\<open>calculateTaskStats\<close>
  returns the exact percentage rounded to the nearest whole number.
\<close>

lemma stats_percentage_off_tie:
  assumes "tasks \<noteq> []" and "length tasks < 2 ^ 32"
    and "(200 * int (length (filter isCompleted tasks)) + int (length tasks))
          mod (2 * int (length tasks)) \<noteq> 0"
  shows "TaskStats.completionPercentage (calculateTaskStats now tasks)
    = exactPercentage (length (filter isCompleted tasks)) (length tasks)"
proof -
  define c where "c = length (filter isCompleted tasks)"
  define t where "t = length tasks"
  have t0: "0 < t" and ct: "c \<le> t"
    using assms(1) by (simp_all add: c_def t_def)
  have "Math_round (doubleTimes (doubleDiv (int c) (int t)) 100)
      = (200 * int c + int t) div (2 * int t)"
  proof (cases "c = 0")
    case True
    then show ?thesis
      using t0
      by (simp add: doubleDiv_def doubleTimes_def roundToDouble_def Math_round_def)
  next
    case False
    have "int t < int (2 ^ 32)"
      using assms(2) by (simp only: t_def of_nat_less_iff)
    then have "int t < 2 ^ 32"
      by simp
    then show ?thesis
      using False ct assms(3) by (intro percentage_off_tie) (simp_all add: c_def t_def)
  qed
  then show ?thesis
    using t0 by (simp add: calculateTaskStats_def Let_def exactPercentage_div c_def t_def)
qed

text \<open>
  For every collection of fewer than \<open>2 ^ 32\<close> tasks, \<^verbatim>\<open>calculateTaskStats\<close>
  returns the exact percentage rounded half-up, or one less.
\<close>

lemma stats_percentage_within_one:
  assumes "length tasks < 2 ^ 32"
  shows "exactPercentage (length (filter isCompleted tasks)) (length tasks) - 1
      \<le> TaskStats.completionPercentage (calculateTaskStats now tasks)
    \<and> TaskStats.completionPercentage (calculateTaskStats now tasks)
      \<le> exactPercentage (length (filter isCompleted tasks)) (length tasks)"
proof (cases "tasks = []")
  case True
  then show ?thesis
    by (simp add: calculateTaskStats_def exactPercentage_def)
next
  case False
  define c where "c = length (filter isCompleted tasks)"
  define t where "t = length tasks"
  have t0: "0 < t" and ct: "c \<le> t"
    using False by (simp_all add: c_def t_def)
  have "(200 * int c + int t) div (2 * int t) - 1
        \<le> Math_round (doubleTimes (doubleDiv (int c) (int t)) 100)
      \<and> Math_round (doubleTimes (doubleDiv (int c) (int t)) 100)
        \<le> (200 * int c + int t) div (2 * int t)"
  proof (cases "c = 0")
    case True
    then show ?thesis
      using t0
      by (simp add: doubleDiv_def doubleTimes_def roundToDouble_def Math_round_def)
  next
    case False
    have "int t < int (2 ^ 32)"
      using assms by (simp only: t_def of_nat_less_iff)
    then have "int t < 2 ^ 32"
      by simp
    then show ?thesis
      using False ct by (intro percentage_within_one) simp_all
  qed
  then show ?thesis
    using t0 by (simp add: calculateTaskStats_def Let_def exactPercentage_div c_def t_def)
qed

text \<open>
  C4. The percentage is not always the exact quotient times 100 rounded half-up. With 23
  of 40 tasks completed the exact percentage is 57.5, which rounds to 58. The code
  divides first: the double nearest to 23/40, times 100, rounds to the double just below
  57.5, and \<^verbatim>\<open>Math.round\<close> returns 57. The counts are the ones of the claim.
\<close>

theorem percentage_of_23_in_40:
  "calculateTaskStats 0 (replicate 23 payRent @ replicate 17 buyMilk) =
     \<lparr> totalTasks = 40, completedTasks = 23, inProgressTasks = 0, pendingTasks = 17,
       overdueTasks = 0, completionPercentage = 57 \<rparr>
   \<and> exactPercentage 23 40 = 58"
proof -
  have p: "Math_round (doubleTimes (doubleDiv 23 40) 100) = 57"
    by code_simp
  have e: "exactPercentage 23 40 = 58"
    by (simp add: exactPercentage_def)
  show ?thesis
    using p e
    by (simp add: calculateTaskStats_def Let_def payRent_def buyMilk_def dateBefore_def)
qed

section \<open>The ISO string of a date reads back as the date\<close>

subsection \<open>Years\<close>

lemma DaysInYear_bounds: "365 \<le> DaysInYear y \<and> DaysInYear y \<le> 366"
  by (simp add: DaysInYear_def)

lemma DayFromYear_mono: "a \<le> b \<Longrightarrow> DayFromYear a \<le> DayFromYear b"
proof (induction b rule: int_ge_induct)
  case base
  show ?case by simp
next
  case (step i)
  then show ?case
    using DaysInYear_bounds [of i] by (simp add: DayFromYear_step)
qed

lemma DayFromYear_1970: "DayFromYear 1970 = 0"
  by (simp add: DayFromYear_def)

lemma DayFromYear_after_1970: "0 \<le> k \<Longrightarrow> DayFromYear (1970 + k) \<le> 366 * k"
proof (induction k rule: int_ge_induct)
  case base
  show ?case by (simp add: DayFromYear_1970)
next
  case (step i)
  have "DayFromYear (1970 + (i + 1)) = DayFromYear (1970 + i) + DaysInYear (1970 + i)"
    using DayFromYear_step [of "1970 + i"] by (simp add: add.assoc)
  then show ?case
    using step.IH DaysInYear_bounds [of "1970 + i"] by simp
qed

lemma DayFromYear_before_1970: "k \<le> 0 \<Longrightarrow> DayFromYear (1970 + k) \<le> 365 * k"
proof (induction k rule: int_le_induct)
  case base
  show ?case by (simp add: DayFromYear_1970)
next
  case (step i)
  have "DayFromYear (1970 + (i - 1) + 1) = DayFromYear (1970 + (i - 1)) + DaysInYear (1970 + (i - 1))"
    by (rule DayFromYear_step)
  then have "DayFromYear (1970 + i) = DayFromYear (1970 + (i - 1)) + DaysInYear (1970 + (i - 1))"
    by simp
  then show ?case
    using step.IH DaysInYear_bounds [of "1970 + (i - 1)"] by simp
qed

lemma yearSearch_correct:
  "DayFromYear y \<le> d \<Longrightarrow>
   DayFromYear (yearSearch y d) \<le> d \<and> d < DayFromYear (yearSearch y d + 1)"
proof (induction y d rule: yearSearch.induct)
  case (1 y d)
  show ?case
  proof (cases "DayFromYear (y + 1) \<le> d")
    case True
    then show ?thesis
      using "1.IH" by (subst (1 2) yearSearch.simps) simp
  next
    case False
    then show ?thesis
      using "1.prems" by (subst (1 2) yearSearch.simps) simp
  qed
qed

lemma YearFromDay_start: "DayFromYear (1970 + min (d div 365) (d div 366)) \<le> d"
proof (cases "0 \<le> d")
  case True
  define k where "k = min (d div 365) (d div 366)"
  have "0 \<le> d div 365" and "0 \<le> d div 366"
    using True by (simp_all add: pos_imp_zdiv_nonneg_iff)
  then have k0: "0 \<le> k"
    by (simp add: k_def)
  have "k \<le> d div 366"
    by (simp add: k_def)
  then have "366 * k \<le> 366 * (d div 366)"
    by simp
  also have "\<dots> \<le> d"
  proof -
    have "366 * (d div 366) + d mod 366 = d" and "0 \<le> d mod 366"
      by simp_all
    then show ?thesis
      by linarith
  qed
  finally have "366 * k \<le> d" .
  then show ?thesis
    using DayFromYear_after_1970 [OF k0] by (simp add: k_def)
next
  case False
  define k where "k = min (d div 365) (d div 366)"
  have "d div 365 < 0"
    using False by (simp add: div_neg_pos_less0)
  then have k0: "k \<le> 0"
    by (simp add: k_def)
  have "k \<le> d div 365"
    by (simp add: k_def)
  then have "365 * k \<le> 365 * (d div 365)"
    by simp
  also have "\<dots> \<le> d"
  proof -
    have "365 * (d div 365) + d mod 365 = d" and "0 \<le> d mod 365"
      by simp_all
    then show ?thesis
      by linarith
  qed
  finally have "365 * k \<le> d" .
  then show ?thesis
    using DayFromYear_before_1970 [OF k0] by (simp add: k_def)
qed

lemma YearFromDay_correct:
  "DayFromYear (YearFromDay d) \<le> d \<and> d < DayFromYear (YearFromDay d + 1)"
  unfolding YearFromDay_def by (rule yearSearch_correct) (rule YearFromDay_start)

lemma YearFromDay_range:
  assumes "- 100000000 \<le> d" and "d \<le> 100000000"
  shows "- 271821 \<le> YearFromDay d \<and> YearFromDay d \<le> 275760"
proof -
  have lo: "DayFromYear (- 271821) \<le> - 100000000"
    by (simp add: DayFromYear_def)
  have hi: "100000000 < DayFromYear 275761"
    by (simp add: DayFromYear_def)
  have "- 271821 \<le> YearFromDay d"
  proof (rule ccontr)
    assume "\<not> - 271821 \<le> YearFromDay d"
    then have "YearFromDay d + 1 \<le> - 271821"
      by simp
    then have "DayFromYear (YearFromDay d + 1) \<le> DayFromYear (- 271821)"
      by (rule DayFromYear_mono)
    then show False
      using YearFromDay_correct [of d] lo assms(1) by simp
  qed
  moreover have "YearFromDay d \<le> 275760"
  proof (rule ccontr)
    assume "\<not> YearFromDay d \<le> 275760"
    then have "275761 \<le> YearFromDay d"
      by simp
    then have "DayFromYear 275761 \<le> DayFromYear (YearFromDay d)"
      by (rule DayFromYear_mono)
    then show False
      using YearFromDay_correct [of d] hi assms(2) by simp
  qed
  ultimately show ?thesis
    by simp
qed

subsection \<open>Months and days\<close>

lemma monthOfDay_correct:
  assumes "0 \<le> dwy" and "dwy < (if leap then 366 else 365)"
  shows "0 \<le> monthOfDay leap dwy \<and> monthOfDay leap dwy \<le> 11
    \<and> monthStart leap (monthOfDay leap dwy) \<le> dwy
    \<and> dwy < monthStart leap (monthOfDay leap dwy + 1)"
  using assms by (cases leap) (simp_all add: monthOfDay_def monthStart_def)

lemma monthStart_step:
  assumes "0 \<le> m" and "m \<le> 11"
  shows "monthStart leap (m + 1) - monthStart leap m \<le> 31"
proof -
  have "m = 0 \<or> m = 1 \<or> m = 2 \<or> m = 3 \<or> m = 4 \<or> m = 5 \<or> m = 6 \<or> m = 7 \<or> m = 8
      \<or> m = 9 \<or> m = 10 \<or> m = 11"
    using assms by arith
  then show ?thesis
    by (cases leap) (auto simp: monthStart_def)
qed

subsection \<open>Decimal fields\<close>

lemma of_char_digitChar: "n < 10 \<Longrightarrow> (of_char (digitChar n) :: nat) = 48 + n"
  by (simp add: digitChar_def)

lemma digitVal_digitChar: "n < 10 \<Longrightarrow> digitVal (digitChar n) = Some n"
  by (simp add: digitVal_def of_char_digitChar)

lemma digitChar_not_sign: "n < 10 \<Longrightarrow> digitChar n \<noteq> CHR ''+'' \<and> digitChar n \<noteq> CHR ''-''"
proof -
  assume n: "n < 10"
  have "(of_char (digitChar n) :: nat) \<noteq> of_char CHR ''+''"
    and "(of_char (digitChar n) :: nat) \<noteq> of_char CHR ''-''"
    using n by (simp_all add: of_char_digitChar)
  then show ?thesis
    by auto
qed

lemma length_padDigits: "length (padDigits w n) = w"
  by (induction w arbitrary: n) simp_all

lemma readDigitsFrom_append:
  "readDigitsFrom a (xs @ ys) =
     (case readDigitsFrom a xs of None \<Rightarrow> None | Some b \<Rightarrow> readDigitsFrom b ys)"
  by (induction xs arbitrary: a) (simp_all split: option.splits)

lemma readDigitsFrom_padDigits:
  "n < 10 ^ w \<Longrightarrow> readDigitsFrom a (padDigits w n) = Some (a * 10 ^ w + n)"
proof (induction w arbitrary: n)
  case 0
  then show ?case by simp
next
  case (Suc w)
  have "n div 10 < 10 ^ w"
    using Suc.prems by (simp add: less_mult_imp_div_less mult.commute)
  then have "readDigitsFrom a (padDigits w (n div 10)) = Some (a * 10 ^ w + n div 10)"
    by (rule Suc.IH)
  then show ?case
    by (simp add: readDigitsFrom_append digitVal_digitChar algebra_simps)
qed

lemma readDigits_padDigits: "n < 10 ^ w \<Longrightarrow> readDigits (padDigits w n) = Some n"
  by (simp add: readDigits_def readDigitsFrom_padDigits)

lemma padDigits_first:
  "\<exists>k tl. k < 10 \<and> padDigits (Suc w) n = digitChar k # tl"
proof (induction w arbitrary: n)
  case 0
  have "n mod 10 < 10 \<and> padDigits (Suc 0) n = digitChar (n mod 10) # []"
    by simp
  then show ?case
    by blast
next
  case (Suc w)
  obtain k tl where "k < 10" and "padDigits (Suc w) (n div 10) = digitChar k # tl"
    using Suc.IH by blast
  then have "k < 10 \<and> padDigits (Suc (Suc w)) n = digitChar k # (tl @ [digitChar (n mod 10)])"
    by simp
  then show ?case
    by blast
qed

subsection \<open>The year, the date and the time of day\<close>

lemma parseYear_unsigned:
  assumes "c \<noteq> CHR ''+''" and "c \<noteq> CHR ''-''"
    and "readDigits (take 4 (c # r)) = Some n" and "4 \<le> length (c # r)"
  shows "parseYear (c # r) = Some (int n, drop 4 (c # r))"
  using assms unfolding parseYear_def by simp

lemma parseYear_signed:
  assumes "readDigits (take 6 r) = Some n" and "6 \<le> length r"
  shows "parseYear (CHR ''+'' # r) = Some (int n, drop 6 r)"
    and "n \<noteq> 0 \<Longrightarrow> parseYear (CHR ''-'' # r) = Some (- int n, drop 6 r)"
  using assms unfolding parseYear_def by simp_all

lemma parseYear_yearString:
  assumes "- 999999 \<le> y" and "y \<le> 999999"
  shows "parseYear (yearString y @ rest) = Some (y, rest)"
proof -
  consider "0 \<le> y \<and> y \<le> 9999" | "y < 0" | "9999 < y"
    by linarith
  then show ?thesis
  proof cases
    case 1
    define s where "s = padDigits 4 (nat y)"
    have len: "length s = 4"
      by (simp add: s_def length_padDigits)
    have four: "(4::nat) = Suc 3"
      by simp
    obtain k tl where k: "k < 10" and p: "s = digitChar k # tl"
      unfolding s_def four using padDigits_first by blast
    have r: "readDigits s = Some (nat y)"
      unfolding s_def using 1 by (intro readDigits_padDigits) (simp; arith)
    have t: "take 4 (s @ rest) = s" and d: "drop 4 (s @ rest) = rest"
      and l: "4 \<le> length (s @ rest)"
      by (simp_all add: len)
    have "parseYear (digitChar k # (tl @ rest)) = Some (int (nat y), drop 4 (digitChar k # (tl @ rest)))"
    proof (rule parseYear_unsigned)
      show "digitChar k \<noteq> CHR ''+''" and "digitChar k \<noteq> CHR ''-''"
        using digitChar_not_sign [OF k] by simp_all
      show "readDigits (take 4 (digitChar k # (tl @ rest))) = Some (nat y)"
        using t r by (simp add: p)
      show "4 \<le> length (digitChar k # (tl @ rest))"
        using l by (simp add: p)
    qed
    then have "parseYear (s @ rest) = Some (int (nat y), rest)"
      using d by (simp add: p)
    then show ?thesis
      using 1 by (simp add: yearString_def s_def)
  next
    case 2
    define s where "s = padDigits 6 (nat (- y))"
    have len: "length s = 6"
      by (simp add: s_def length_padDigits)
    have r: "readDigits s = Some (nat (- y))"
      unfolding s_def using 2 assms by (intro readDigits_padDigits) (simp; arith)
    have "parseYear (CHR ''-'' # (s @ rest)) = Some (- int (nat (- y)), drop 6 (s @ rest))"
      using 2 r by (intro parseYear_signed) (simp_all add: len)
    then have "parseYear (CHR ''-'' # (s @ rest)) = Some (y, rest)"
      using 2 by (simp add: len)
    then show ?thesis
      using 2 by (simp add: yearString_def s_def)
  next
    case 3
    define s where "s = padDigits 6 (nat y)"
    have len: "length s = 6"
      by (simp add: s_def length_padDigits)
    have r: "readDigits s = Some (nat y)"
      unfolding s_def using 3 assms by (intro readDigits_padDigits) (simp; arith)
    have "parseYear (CHR ''+'' # (s @ rest)) = Some (int (nat y), drop 6 (s @ rest))"
      using 3 r by (intro parseYear_signed) (simp_all add: len)
    then have "parseYear (CHR ''+'' # (s @ rest)) = Some (y, rest)"
      using 3 by (simp add: len)
    then show ?thesis
      using 3 by (simp add: yearString_def s_def)
  qed
qed

lemma parseDatePart_fields:
  assumes "parseYear s = Some (y, CHR ''-'' # a @ CHR ''-'' # b @ rest)"
    and "length a = 2" and "length b = 2"
    and "readDigits a = Some mo" and "readDigits b = Some d"
    and "1 \<le> mo" and "mo \<le> 12" and "1 \<le> d" and "int d \<le> DaysInMonth y (int mo - 1)"
  shows "parseDatePart s = Some (MakeDay y (int mo - 1) (int d), rest)"
  using assms unfolding parseDatePart_def by (simp add: nth_append)

lemma parseTimePart_fields:
  assumes "length a = 2" and "length b = 2" and "length c = 2" and "length e = 3"
    and "readDigits a = Some h" and "readDigits b = Some mi"
    and "readDigits c = Some sec" and "readDigits e = Some ms"
    and "h \<le> 23" and "mi \<le> 59" and "sec \<le> 59"
  shows "parseTimePart (CHR ''T'' # a @ CHR '':'' # b @ CHR '':'' # c @ CHR ''.'' # e @ [CHR ''Z''])
     = Some (MakeTime (int h) (int mi) (int sec) (int ms))"
  using assms unfolding parseTimePart_def by (simp add: nth_append)

lemma MakeTime_fields:
  "MakeTime (HourFromTime t) (MinFromTime t) (SecFromTime t) (msFromTime t) = TimeWithinDay t"
proof -
  have a: "t mod 86400000 = 1000 * (t div 1000 mod 86400) + t mod 1000"
    using zmod_zmult2_eq [of 86400 t 1000] by simp
  have b: "t div 1000 mod 86400 = 60 * (t div 1000 div 60 mod 1440) + t div 1000 mod 60"
    using zmod_zmult2_eq [of 1440 "t div 1000" 60] by simp
  have c: "t div 1000 div 60 = t div 60000"
    using zdiv_zmult2_eq [of 60 t 1000] by simp
  have d: "t div 60000 mod 1440 = 60 * (t div 60000 div 60 mod 24) + t div 60000 mod 60"
    using zmod_zmult2_eq [of 24 "t div 60000" 60] by simp
  have e: "t div 60000 div 60 = t div 3600000"
    using zdiv_zmult2_eq [of 60 t 60000] by simp
  show ?thesis
    unfolding MakeTime_def HourFromTime_def MinFromTime_def SecFromTime_def msFromTime_def
      TimeWithinDay_def msPerDay_def a b c d e
    by simp
qed

lemma parseTimePart_timeString:
  "parseTimePart (''T'' @ timeString t @ ''Z'') = Some (TimeWithinDay t)"
proof -
  define h where "h = nat (HourFromTime t)"
  define mi where "mi = nat (MinFromTime t)"
  define sec where "sec = nat (SecFromTime t)"
  define ms where "ms = nat (msFromTime t)"
  have rh: "0 \<le> HourFromTime t \<and> HourFromTime t < 24"
    and rmi: "0 \<le> MinFromTime t \<and> MinFromTime t < 60"
    and rsec: "0 \<le> SecFromTime t \<and> SecFromTime t < 60"
    and rms: "0 \<le> msFromTime t \<and> msFromTime t < 1000"
    by (simp_all add: HourFromTime_def MinFromTime_def SecFromTime_def msFromTime_def)
  have bh: "h \<le> 23" and bmi: "mi \<le> 59" and bsec: "sec \<le> 59" and bms: "ms < 1000"
    using rh rmi rsec rms unfolding h_def mi_def sec_def ms_def by linarith+
  have ih: "int h = HourFromTime t" and imi: "int mi = MinFromTime t"
    and isec: "int sec = SecFromTime t" and ims: "int ms = msFromTime t"
    using rh rmi rsec rms by (simp_all add: h_def mi_def sec_def ms_def)
  have s: "''T'' @ timeString t @ ''Z'' =
      CHR ''T'' # padDigits 2 h @ CHR '':'' # padDigits 2 mi @ CHR '':'' # padDigits 2 sec
        @ CHR ''.'' # padDigits 3 ms @ [CHR ''Z'']"
    by (simp add: timeString_def h_def mi_def sec_def ms_def del: padDigits.simps)
  have "parseTimePart (CHR ''T'' # padDigits 2 h @ CHR '':'' # padDigits 2 mi @ CHR '':''
        # padDigits 2 sec @ CHR ''.'' # padDigits 3 ms @ [CHR ''Z''])
     = Some (MakeTime (int h) (int mi) (int sec) (int ms))"
  proof (rule parseTimePart_fields)
    show "readDigits (padDigits 2 h) = Some h"
      using bh by (intro readDigits_padDigits) simp
    show "readDigits (padDigits 2 mi) = Some mi"
      using bmi by (intro readDigits_padDigits) simp
    show "readDigits (padDigits 2 sec) = Some sec"
      using bsec by (intro readDigits_padDigits) simp
    show "readDigits (padDigits 3 ms) = Some ms"
      using bms by (intro readDigits_padDigits) simp
  qed (simp_all add: length_padDigits bh bmi bsec)
  then show ?thesis
    unfolding s ih imi isec ims MakeTime_fields .
qed

lemma parseDatePart_dateString:
  assumes "- 100000000 \<le> Day t" and "Day t \<le> 100000000"
  shows "parseDatePart (dateString t @ rest) = Some (Day t, rest)"
proof -
  define y where "y = YearFromTime t"
  define leap where "leap = isLeapYear y"
  define dwy where "dwy = DayWithinYear t"
  define m where "m = MonthFromTime t"
  define dd where "dd = DateFromTime t"
  have yr: "- 271821 \<le> y \<and> y \<le> 275760"
    unfolding y_def YearFromTime_def using assms by (rule YearFromDay_range)
  have yc: "DayFromYear y \<le> Day t \<and> Day t < DayFromYear (y + 1)"
    unfolding y_def YearFromTime_def by (rule YearFromDay_correct)
  have dwy: "0 \<le> dwy \<and> dwy < (if leap then 366 else 365)"
    using yc unfolding dwy_def DayWithinYear_def y_def [symmetric] leap_def
    by (simp add: DayFromYear_step DaysInYear_def)
  have m_eq: "m = monthOfDay leap dwy"
    by (simp add: m_def MonthFromTime_def leap_def y_def dwy_def)
  have mc: "0 \<le> m \<and> m \<le> 11 \<and> monthStart leap m \<le> dwy \<and> dwy < monthStart leap (m + 1)"
    unfolding m_eq using dwy by (intro monthOfDay_correct) simp_all
  have dd_eq: "dd = dwy - monthStart leap m + 1"
    by (simp add: dd_def DateFromTime_def leap_def y_def dwy_def m_def)
  have ddr: "1 \<le> dd \<and> dd \<le> monthStart leap (m + 1) - monthStart leap m"
    using mc by (simp add: dd_eq)
  have dd31: "dd \<le> 31"
    using ddr monthStart_step [of m leap] mc by linarith
  define mo where "mo = nat (m + 1)"
  define d where "d = nat dd"
  have imo: "int mo = m + 1" and id: "int d = dd"
    using mc ddr by (simp_all add: mo_def d_def)
  have bmo: "1 \<le> mo \<and> mo \<le> 12" and bd: "1 \<le> d \<and> d \<le> 31"
    using mc ddr dd31 unfolding mo_def d_def by linarith+
  have s: "dateString t @ rest =
      yearString y @ (CHR ''-'' # padDigits 2 mo @ CHR ''-'' # padDigits 2 d @ rest)"
    by (simp add: dateString_def y_def mo_def d_def m_def dd_def del: padDigits.simps)
  have py: "parseYear (dateString t @ rest) =
      Some (y, CHR ''-'' # padDigits 2 mo @ CHR ''-'' # padDigits 2 d @ rest)"
    unfolding s using yr by (intro parseYear_yearString) simp_all
  have "parseDatePart (dateString t @ rest) = Some (MakeDay y (int mo - 1) (int d), rest)"
  proof (rule parseDatePart_fields [OF py])
    show "readDigits (padDigits 2 mo) = Some mo"
      using bmo by (intro readDigits_padDigits) simp
    show "readDigits (padDigits 2 d) = Some d"
      using bd by (intro readDigits_padDigits) simp
    show "int d \<le> DaysInMonth y (int mo - 1)"
      using ddr by (simp add: imo id DaysInMonth_def leap_def)
  qed (use bmo bd in \<open>simp_all add: length_padDigits\<close>)
  moreover have "MakeDay y (int mo - 1) (int d) = Day t"
  proof -
    have "m div 12 = 0" and "m mod 12 = m"
      using mc by simp_all
    then have "MakeDay y m dd = DayFromYear y + monthStart leap m + dd - 1"
      by (simp add: MakeDay_def leap_def)
    also have "\<dots> = DayFromYear y + dwy"
      by (simp add: dd_eq)
    also have "\<dots> = Day t"
      by (simp add: dwy_def DayWithinYear_def y_def)
    finally show ?thesis
      by (simp add: imo id)
  qed
  ultimately show ?thesis
    by simp
qed

lemma validTime_Day:
  assumes "validTime t"
  shows "- 100000000 \<le> Day t \<and> Day t \<le> 100000000"
proof -
  have "- 8640000000000000 \<le> t" and "t \<le> 8640000000000000"
    using assms by (simp_all add: validTime_def maxTime_def)
  then have "(- 8640000000000000) div 86400000 \<le> t div 86400000"
    and "t div 86400000 \<le> 8640000000000000 div 86400000"
    by (intro zdiv_mono1; simp)+
  then show ?thesis
    by (simp add: Day_def msPerDay_def)
qed

text \<open>Every time value of a valid date survives \<^verbatim>\<open>toISOString\<close> followed by
  \<^verbatim>\<open>new Date\<close>, to the millisecond.\<close>

lemma parseISO_toISOString:
  assumes "validTime t"
  shows "parseISO (toISOString t) = Some t"
proof -
  have d: "parseDatePart (dateString t @ (''T'' @ timeString t @ ''Z''))
      = Some (Day t, ''T'' @ timeString t @ ''Z'')"
    using validTime_Day [OF assms] by (intro parseDatePart_dateString) simp_all
  have "MakeDate (Day t) (TimeWithinDay t) = t"
    by (simp add: MakeDate_def Day_def TimeWithinDay_def)
  then show ?thesis
    unfolding parseISO_def toISOString_def d
    by (simp add: parseTimePart_timeString [simplified] del: padDigits.simps)
qed

lemma newDate_toISOString:
  "validTime t \<Longrightarrow> newDate other (toISOString t) = Some t"
  by (simp add: newDate_def parseISO_toISOString TimeClip_def)

section \<open>Saving and loading\<close>

lemma statusFromJSON_statusString: "statusFromJSON (Some (JStr (statusString s))) = Some s"
  by (cases s) (simp_all add: statusFromJSON_def stringFromJSON_def statusString_def)

lemma categoryFromJSON_categoryString:
  "categoryFromJSON (Some (JStr (categoryString c))) = Some c"
  by (cases c) (simp_all add: categoryFromJSON_def stringFromJSON_def categoryString_def)

lemma priorityFromJSON_priorityString:
  "priorityFromJSON (Some (JStr (priorityString p))) = Some p"
  by (cases p) (simp_all add: priorityFromJSON_def stringFromJSON_def priorityString_def)

lemma dateFromJSON_dateToJSON:
  "validDate d \<Longrightarrow> dateFromJSON other (Some (dateToJSON d)) = Some d"
  by (cases d) (simp_all add: validDate_def dateToJSON_def dateFromJSON_def newDate_toISOString)

lemma reviveTask_taskToJSON:
  assumes "validDates task"
  shows "reviveTask other (taskToJSON task) = Revived task"
proof -
  have d: "dateFromJSON other (Some (dateToJSON (startDate task))) = Some (startDate task)"
    "dateFromJSON other (Some (dateToJSON (dueDate task))) = Some (dueDate task)"
    "dateFromJSON other (Some (dateToJSON (createdAt task))) = Some (createdAt task)"
    "dateFromJSON other (Some (dateToJSON (updatedAt task))) = Some (updatedAt task)"
    using assms by (simp_all add: validDates_def dateFromJSON_dateToJSON)
  show ?thesis
    using d
    by (cases task)
      (simp add: reviveTask_def taskToJSON_def reviveObject_def
        statusFromJSON_statusString categoryFromJSON_categoryString
        priorityFromJSON_priorityString stringFromJSON_def numberFromJSON_def
        booleanFromJSON_def)
qed

lemma reviveAll_taskToJSON:
  assumes "\<forall>task \<in> set tasks. validDates task"
  shows "reviveAll other (map taskToJSON tasks) = (Loaded tasks, [])"
proof -
  have m: "map (reviveTask other) (map taskToJSON tasks) = map Revived tasks"
    using assms by (simp add: reviveTask_taskToJSON)
  have f: "find isThrows (map Revived ts) = None" for ts
    by (induction ts) (simp_all add: isThrows_def)
  have c: "collectRevived (map Revived ts) = Some ts" for ts
    by (induction ts) simp_all
  show ?thesis
    unfolding reviveAll_def m by (simp add: f c)
qed

text \<open>
  C5, amended. A collection whose dates are all valid comes back from
  \<^verbatim>\<open>localStorage\<close> as it was saved, no diagnostic logged: every field of every
  task is the original one, the four dates to the millisecond, which is the precision
  of a \<^verbatim>\<open>Date\<close> and of its ISO string. The platform's part is assumed: the text
  that \<^verbatim>\<open>JSON.stringify\<close> writes for the collection is not empty, and
  \<^verbatim>\<open>JSON.parse\<close> reads it back as the same JSON value.
\<close>

theorem load_save_roundtrip:
  assumes "\<forall>task \<in> set tasks. validDates task"
    and "stringify (JArr (map taskToJSON tasks)) \<noteq> []"
    and "parse (stringify (JArr (map taskToJSON tasks))) = Inr (JArr (map taskToJSON tasks))"
  shows "loadTasks parse other (Some (saveTasks stringify tasks)) = (Loaded tasks, [])"
  using assms(2,3) reviveAll_taskToJSON [OF assms(1)]
  by (simp add: loadTasks_def saveTasks_def)

theorem load_save_roundtrip_witness:
  "validDates buyMilk \<and> validDates writeReport \<and> validDates payRent
   \<and> (\<lambda>v. ''[saved]'') (JArr (map taskToJSON scenario)) \<noteq> []
   \<and> (\<lambda>s. Inr (JArr (map taskToJSON scenario)) :: exn + json)
        ((\<lambda>v. ''[saved]'') (JArr (map taskToJSON scenario)))
       = Inr (JArr (map taskToJSON scenario))
   \<and> loadTasks (\<lambda>s. Inr (JArr (map taskToJSON scenario))) (\<lambda>s. None)
        (Some (saveTasks (\<lambda>v. ''[saved]'') scenario)) = (Loaded scenario, [])"
proof -
  have v: "\<forall>task \<in> set scenario. validDates task"
    by (simp add: scenario_def buyMilk_def writeReport_def payRent_def validDates_def
        validDate_def validTime_def maxTime_def)
  show ?thesis
    using v load_save_roundtrip [OF v, of "\<lambda>v. ''[saved]''"
        "\<lambda>s. Inr (JArr (map taskToJSON scenario))" "\<lambda>s. None"]
    by (simp add: scenario_def)
qed

text \<open>
  C5 as the specification states it fails for a task with an invalid date. A task created with
  the due date left empty holds the invalid date; \<^verbatim>\<open>JSON.stringify\<close> writes it as
  null, and \<^verbatim>\<open>new Date(null)\<close> on load is the epoch, 1 January 1970.
\<close>

theorem load_save_invalid_date:
  "map dueDate undatedTasks = [None]
   \<and> (\<lambda>s. Inr (JArr (map taskToJSON undatedTasks)) :: exn + json)
        ((\<lambda>v. ''[saved]'') (JArr (map taskToJSON undatedTasks)))
       = Inr (JArr (map taskToJSON undatedTasks))
   \<and> loadTasks (\<lambda>s. Inr (JArr (map taskToJSON undatedTasks))) (\<lambda>s. None)
        (Some (saveTasks (\<lambda>v. ''[saved]'') undatedTasks))
       = (Loaded (map (\<lambda>task. task\<lparr> dueDate := Some 0 \<rparr>) undatedTasks), [])
   \<and> loadTasks (\<lambda>s. Inr (JArr (map taskToJSON undatedTasks))) (\<lambda>s. None)
        (Some (saveTasks (\<lambda>v. ''[saved]'') undatedTasks))
       \<noteq> (Loaded undatedTasks, [])"
proof -
  have d1: "newDate (\<lambda>s. None) ''2024-01-15'' = Some 1705276800000"
    by code_simp
  have d2: "newDate (\<lambda>s. None) [] = None"
    by code_simp
  have u: "undatedTasks =
      [\<lparr> taskId = ''a'', title = ''Buy milk'', description = [],
         startDate = Some 1705276800000, dueDate = None, completionPercentage = 0,
         status = Pending, category = Personal, priority = Low, isCompleted = False,
         createdAt = Some 1, updatedAt = Some 1 \<rparr>]"
    by (simp add: undatedTasks_def handleCreateTask_def buyMilkForm_def d1 d2)
  have i1: "toISOString 1705276800000 = ''2024-01-15T00:00:00.000Z''"
    by code_simp
  have i2: "toISOString 1 = ''1970-01-01T00:00:00.001Z''"
    by code_simp
  have p1: "newDate (\<lambda>s. None) ''2024-01-15T00:00:00.000Z'' = Some 1705276800000"
    by code_simp
  have p2: "newDate (\<lambda>s. None) ''1970-01-01T00:00:00.001Z'' = Some 1"
    by code_simp
  have l: "loadTasks (\<lambda>s. Inr (JArr (map taskToJSON undatedTasks))) (\<lambda>s. None)
        (Some (saveTasks (\<lambda>v. ''[saved]'') undatedTasks))
       = (Loaded (map (\<lambda>task. task\<lparr> dueDate := Some 0 \<rparr>) undatedTasks), [])"
    unfolding u
    by (simp add: loadTasks_def saveTasks_def reviveAll_def reviveTask_def reviveObject_def
        taskToJSON_def dateToJSON_def dateFromJSON_def stringFromJSON_def numberFromJSON_def
        booleanFromJSON_def statusFromJSON_def categoryFromJSON_def priorityFromJSON_def
        statusString_def categoryString_def priorityString_def isThrows_def i1 i2 p1 p2)
  show ?thesis
    unfolding l by (simp add: u)
qed

end
